theory Spec2Isabelle
  imports Main "HOL-Library.Word"
begin

unbundle bit_operations_syntax

section \<open>The warehouse inventory engine (package postgres)\<close>

text \<open>
  The engine of \<^verbatim>\<open>github.com/auknl/warehouse\<close> runs every operation inside one
  transaction of a relational store reached through Go's \<^verbatim>\<open>database/sql\<close>.
  The embedding keeps the control flow of each Go function: every \<^verbatim>\<open>return\<close>, every
  \<^verbatim>\<open>defer\<close> and every call on the transaction handle is a step of the model, and
  every call the engine issues is recorded, with its outcome, in a trace.
\<close>

subsection \<open>Errors\<close>

text \<open>
  A Go \<^verbatim>\<open>error\<close> is \<open>error option\<close>, with \<open>None\<close> for \<^verbatim>\<open>nil\<close>. An error is either
  made by the engine with \<^verbatim>\<open>errors.New\<close>, or comes from the store (driver) and carries
  the driver's message, or is \<^verbatim>\<open>sql.ErrTxDone\<close>, which \<^verbatim>\<open>database/sql\<close> returns for
  a call on a transaction that was already committed or rolled back.
\<close>

datatype error = ErrorsNew string | StoreError string | ErrTxDone

definition ProductNotFoundError :: error where
  "ProductNotFoundError = ErrorsNew ''this product is not in system, cannot be sold''"

definition OutOfStockError :: error where
  "OutOfStockError = ErrorsNew ''this product is not in stock, cannot be sold''"

subsection \<open>Payload types (package data)\<close>

text \<open>
  Modelled from the spec: the struct declarations of package \<^verbatim>\<open>data\<close> are not among the
  sources; the engine only reads the fields below. The spec (section 6) gives every field
  as text: a Products payload is a sequence of \<open>{name, composition: {article id, amount}}\<close>,
  an Inventory payload a sequence of \<open>{article id, name, quantity-as-text}\<close>.
\<close>

record Article =
  ArtId :: string
  AmountOf :: string

record Product =
  Name :: string
  ContainArticles :: "Article list"

record Products =
  Products :: "Product list"

record Stock =
  ArtId :: string
  Name :: string
  Stock :: string

record Inventory =
  Inventory :: "Stock list"

record ProductStock =
  Name :: string
  AvailableProductNo :: string

subsection \<open>The transactional store\<close>

text \<open>
  The statements of the query set are constants of package \<^verbatim>\<open>postgres\<close> whose SQL text
  is not among the sources. They are named here, and what the store does with each of them
  is a parameter of the model.
\<close>

datatype stmt =
  getInventory | getProductStock | productExist | inStock
  | updateSaleInfo | insertProduct | insertStock

text \<open>
  A result set (\<^verbatim>\<open>*sql.Rows\<close>) is the list of outcomes of \<^verbatim>\<open>rows.Scan\<close>, one for each row
  that \<^verbatim>\<open>rows.Next\<close> delivers (\<open>Inl\<close> when the scan of that row fails), together with
  the value of \<^verbatim>\<open>rows.Err()\<close> once the iteration has stopped.
\<close>

type_synonym 'r rows = "(error + 'r) list \<times> error option"

text \<open>
  The store over database contents of type \<open>'db\<close>. Each field answers one kind of call
  on the contents the transaction sees. A query returns an error or a result set; a
  statement execution returns an error or the contents as changed inside the transaction.
  The flags selected by \<^verbatim>\<open>productExist\<close> and \<^verbatim>\<open>inStock\<close> are scanned into a Go \<^verbatim>\<open>int\<close>;
  the engine only compares them with zero.
\<close>

record 'db store =
  beginTx :: "'db \<Rightarrow> error option"
  queryGetProductStock :: "'db \<Rightarrow> error + (string \<times> string) rows"
  queryProductExist :: "string \<Rightarrow> 'db \<Rightarrow> error + int rows"
  queryInStock :: "string \<Rightarrow> 'db \<Rightarrow> error + int rows"
  execUpdateSaleInfo :: "string \<Rightarrow> 'db \<Rightarrow> error + 'db"
  execInsertProduct :: "string \<Rightarrow> string \<Rightarrow> string \<Rightarrow> 'db \<Rightarrow> error + 'db"
  execInsertStock :: "string \<Rightarrow> string \<Rightarrow> string \<Rightarrow> 'db \<Rightarrow> error + 'db"
  commitTx :: "'db \<Rightarrow> error option"

text \<open>The calls the engine issues, each with the error it returned.\<close>

datatype call =
  BeginTx "error option"
  | Query stmt "string list" "error option"
  | ExecContext stmt "string list" "error option"
  | Commit "error option"
  | Rollback

text \<open>
  The state an operation runs on: the persisted (committed) contents of the store, the
  working contents of the open transaction (\<open>None\<close> when the transaction handle is done
  or none was opened), and the trace of calls, oldest first.
\<close>

record 'db session =
  persisted :: 'db
  txn :: "'db option"
  calls :: "call list"

definition log_call :: "call \<Rightarrow> 'db session \<Rightarrow> 'db session" where
  "log_call c s = s\<lparr>calls := calls s @ [c]\<rparr>"

text \<open>The calls issued between two states of a session.\<close>

definition issued :: "'db session \<Rightarrow> 'db session \<Rightarrow> call list" where
  "issued s s' = drop (length (calls s)) (calls s')"

text \<open>\<^verbatim>\<open>db.BeginTx\<close>: a fresh transaction that sees the persisted contents.\<close>

definition BeginTx_op :: "'db store \<Rightarrow> 'db session \<Rightarrow> error option \<times> 'db session" where
  "BeginTx_op st s =
     (case beginTx st (persisted s) of
        Some e \<Rightarrow> (Some e, log_call (BeginTx (Some e)) s)
      | None \<Rightarrow> (None, log_call (BeginTx None) (s\<lparr>txn := Some (persisted s)\<rparr>)))"

text \<open>\<^verbatim>\<open>tx.Query\<close>: reads the working contents; leaves them as they are.\<close>

definition Query_op ::
  "('db \<Rightarrow> error + 'r rows) \<Rightarrow> stmt \<Rightarrow> string list \<Rightarrow> 'db session
     \<Rightarrow> (error + 'r rows) \<times> 'db session" where
  "Query_op q name args s =
     (case txn s of
        None \<Rightarrow> (Inl ErrTxDone, log_call (Query name args (Some ErrTxDone)) s)
      | Some d \<Rightarrow>
          (case q d of
             Inl e \<Rightarrow> (Inl e, log_call (Query name args (Some e)) s)
           | Inr rs \<Rightarrow> (Inr rs, log_call (Query name args None) s)))"

text \<open>\<^verbatim>\<open>tx.ExecContext\<close>: changes the working contents only.\<close>

definition ExecContext_op ::
  "('db \<Rightarrow> error + 'db) \<Rightarrow> stmt \<Rightarrow> string list \<Rightarrow> 'db session
     \<Rightarrow> error option \<times> 'db session" where
  "ExecContext_op x name args s =
     (case txn s of
        None \<Rightarrow> (Some ErrTxDone, log_call (ExecContext name args (Some ErrTxDone)) s)
      | Some d \<Rightarrow>
          (case x d of
             Inl e \<Rightarrow> (Some e, log_call (ExecContext name args (Some e)) s)
           | Inr d' \<Rightarrow> (None, log_call (ExecContext name args None) (s\<lparr>txn := Some d'\<rparr>))))"

text \<open>
  \<^verbatim>\<open>tx.Commit\<close>: the handle is done afterwards in either case; the working contents
  become the persisted ones only when the store accepts the commit.
\<close>

definition Commit_op :: "'db store \<Rightarrow> 'db session \<Rightarrow> error option \<times> 'db session" where
  "Commit_op st s =
     (case txn s of
        None \<Rightarrow> (Some ErrTxDone, log_call (Commit (Some ErrTxDone)) s)
      | Some d \<Rightarrow>
          (case commitTx st d of
             Some e \<Rightarrow> (Some e, log_call (Commit (Some e)) (s\<lparr>txn := None\<rparr>))
           | None \<Rightarrow> (None, log_call (Commit None) (s\<lparr>persisted := d, txn := None\<rparr>))))"

text \<open>
  \<^verbatim>\<open>tx.Rollback\<close>: drops the working contents. The engine never reads the error it
  returns (\<^verbatim>\<open>sql.ErrTxDone\<close> on a handle that is done).
\<close>

definition Rollback_op :: "'db session \<Rightarrow> 'db session" where
  "Rollback_op s = log_call Rollback (s\<lparr>txn := None\<rparr>)"

subsection \<open>strconv.ParseInt at base 10 and bit size 64\<close>

text \<open>
  \<^verbatim>\<open>GetProductStock\<close> calls \<^verbatim>\<open>strconv.ParseInt(stock, 10, 64)\<close> of the Go standard
  library and drops the error. The library function is embedded as it is written:
  \<^verbatim>\<open>ParseUint\<close> accumulates the digits in a \<^verbatim>\<open>uint64\<close> and stops at the first byte that is
  not a digit of the base (syntax error, value 0) or at the first overflow (range error,
  value \<^verbatim>\<open>maxVal\<close>); \<^verbatim>\<open>ParseInt\<close> strips one sign, and on a value out of the \<^verbatim>\<open>int64\<close>
  range returns the nearest bound together with the range error.
\<close>

datatype NumError = ErrSyntax | ErrRange

definition lower :: "8 word \<Rightarrow> 8 word" where
  "lower c = c OR 0x20"

text \<open>The digit switch of the loop of \<^verbatim>\<open>ParseUint\<close> (base not 0, so no underscores).\<close>

definition digit_of :: "8 word \<Rightarrow> 8 word option" where
  "digit_of c =
     (if 0x30 \<le> c \<and> c \<le> 0x39 then Some (c - 0x30)
      else if 0x61 \<le> lower c \<and> lower c \<le> 0x7A then Some (lower c - 0x61 + 10)
      else None)"

definition maxUint64 :: "64 word" where
  "maxUint64 = 0xFFFFFFFFFFFFFFFF"

fun ParseUint_loop :: "string \<Rightarrow> 64 word \<Rightarrow> 64 word \<times> NumError option" where
  "ParseUint_loop [] n = (n, None)"
| "ParseUint_loop (c # cs) n =
     (case digit_of (of_nat (of_char c)) of
        None \<Rightarrow> (0, Some ErrSyntax)
      | Some d \<Rightarrow>
          if d \<ge> 10 then (0, Some ErrSyntax)
          else if n \<ge> maxUint64 div 10 + 1 then (maxUint64, Some ErrRange)
          else
            (let n' = n * 10; n1 = n' + ucast d in
             if n1 < n' \<or> n1 > maxUint64 then (maxUint64, Some ErrRange)
             else ParseUint_loop cs n1))"

definition ParseUint :: "string \<Rightarrow> 64 word \<times> NumError option" where
  "ParseUint s = (if s = [] then (0, Some ErrSyntax) else ParseUint_loop s 0)"

text \<open>The \<^verbatim>\<open>int64\<close> result is a 64-bit word, read as two's complement (\<open>sint\<close>).\<close>

definition ParseInt :: "string \<Rightarrow> 64 word \<times> NumError option" where
  "ParseInt s =
     (if s = [] then (0, Some ErrSyntax)
      else
        (let neg = (hd s = CHR ''-'');
             s' = (if hd s = CHR ''+'' \<or> hd s = CHR ''-'' then tl s else s);
             (un, err) = ParseUint s';
             cutoff = (0x8000000000000000 :: 64 word)
         in if err = Some ErrSyntax then (0, err)
            else if \<not> neg \<and> un \<ge> cutoff then (cutoff - 1, Some ErrRange)
            else if neg \<and> un > cutoff then (- cutoff, Some ErrRange)
            else (if neg then - un else un, None)))"

subsection \<open>GetProductStock\<close>

text \<open>
  The loop over the rows: a scan failure returns at once; a row is appended, with the
  text as the store returned it, when the number \<^verbatim>\<open>ParseInt\<close> gives for it is not 0.
\<close>

fun productStock_loop ::
  "(error + string \<times> string) list \<Rightarrow> ProductStock list \<Rightarrow> error + ProductStock list" where
  "productStock_loop [] stocks = Inr stocks"
| "productStock_loop (Inl err # rs) stocks = Inl err"
| "productStock_loop (Inr (productName, stock) # rs) stocks =
     (let stockNo = fst (ParseInt stock) in
      if stockNo \<noteq> 0
      then productStock_loop rs
             (stocks @ [\<lparr>ProductStock.Name = productName, AvailableProductNo = stock\<rparr>])
      else productStock_loop rs stocks)"

text \<open>The part of the function after \<^verbatim>\<open>defer transaction.Rollback()\<close>.\<close>

definition GetProductStock_body ::
  "'db store \<Rightarrow> 'db session \<Rightarrow> (error option \<times> ProductStock list) \<times> 'db session" where
  "GetProductStock_body st s1 =
     (case Query_op (queryGetProductStock st) getProductStock [] s1 of
        (Inl err, s2) \<Rightarrow> ((Some err, []), s2)
      | (Inr (rows, rowsErr), s2) \<Rightarrow>
          (case productStock_loop rows [] of
             Inl err \<Rightarrow> ((Some err, []), s2)
           | Inr stocks \<Rightarrow>
               (case rowsErr of
                  Some err \<Rightarrow> ((Some err, []), s2)
                | None \<Rightarrow> ((None, stocks), s2))))"

definition GetProductStock ::
  "'db store \<Rightarrow> 'db session \<Rightarrow> (error option \<times> ProductStock list) \<times> 'db session" where
  "GetProductStock st s =
     (case BeginTx_op st s of
        (Some err, s1) \<Rightarrow> ((Some err, []), s1)
      | (None, s1) \<Rightarrow>
          (case GetProductStock_body st s1 of (r, s2) \<Rightarrow> (r, Rollback_op s2)))"

subsection \<open>UploadProducts\<close>

text \<open>
  The inner loop over \<^verbatim>\<open>product.ContainArticles\<close>: one \<^verbatim>\<open>insertProduct\<close> per
  composition entry; the first failing insert rolls back and returns its error.
\<close>

fun insertContains ::
  "'db store \<Rightarrow> string \<Rightarrow> Article list \<Rightarrow> 'db session \<Rightarrow> error option \<times> 'db session" where
  "insertContains st name [] s = (None, s)"
| "insertContains st name (contain # cs) s =
     (case ExecContext_op
             (execInsertProduct st name (Article.ArtId contain) (AmountOf contain))
             insertProduct [name, Article.ArtId contain, AmountOf contain] s of
        (Some err, s') \<Rightarrow> (Some err, Rollback_op s')
      | (None, s') \<Rightarrow> insertContains st name cs s')"

text \<open>The outer loop over \<^verbatim>\<open>product.Products\<close>.\<close>

fun insertProducts ::
  "'db store \<Rightarrow> Product list \<Rightarrow> 'db session \<Rightarrow> error option \<times> 'db session" where
  "insertProducts st [] s = (None, s)"
| "insertProducts st (product # ps) s =
     (case insertContains st (Product.Name product) (ContainArticles product) s of
        (Some err, s') \<Rightarrow> (Some err, s')
      | (None, s') \<Rightarrow> insertProducts st ps s')"

text \<open>
  After the loops the commit error is only logged: a failed commit is followed by a
  rollback, and the function goes on to return \<^verbatim>\<open>nil\<close> and \<^verbatim>\<open>len(product.Products)\<close>.
\<close>

definition UploadProducts ::
  "'db store \<Rightarrow> Products \<Rightarrow> 'db session \<Rightarrow> (error option \<times> nat) \<times> 'db session" where
  "UploadProducts st product s =
     (case BeginTx_op st s of
        (Some err, s1) \<Rightarrow> ((Some err, 0), s1)
      | (None, s1) \<Rightarrow>
          (case insertProducts st (Products product) s1 of
             (Some err, s2) \<Rightarrow> ((Some err, 0), s2)
           | (None, s2) \<Rightarrow>
               (case Commit_op st s2 of
                  (err, s3) \<Rightarrow>
                    (let s4 = (if err \<noteq> None then Rollback_op s3 else s3);
                         insertedRecord = length (Products product)
                     in ((None, insertedRecord), s4)))))"

subsection \<open>UploadInventory\<close>

fun insertStocks ::
  "'db store \<Rightarrow> Stock list \<Rightarrow> 'db session \<Rightarrow> error option \<times> 'db session" where
  "insertStocks st [] s = (None, s)"
| "insertStocks st (inventoryRec # recs) s =
     (case ExecContext_op
             (execInsertStock st (Stock.ArtId inventoryRec) (Stock.Name inventoryRec)
                (Stock inventoryRec))
             insertStock
             [Stock.ArtId inventoryRec, Stock.Name inventoryRec, Stock inventoryRec] s of
        (Some err, s') \<Rightarrow> (Some err, Rollback_op s')
      | (None, s') \<Rightarrow> insertStocks st recs s')"

text \<open>Here a failed commit returns at once, with \<^verbatim>\<open>nil\<close> and the count 0.\<close>

definition UploadInventory ::
  "'db store \<Rightarrow> Inventory \<Rightarrow> 'db session \<Rightarrow> (error option \<times> nat) \<times> 'db session" where
  "UploadInventory st inventoryToInsert s =
     (case BeginTx_op st s of
        (Some err, s1) \<Rightarrow> ((Some err, 0), s1)
      | (None, s1) \<Rightarrow>
          (case insertStocks st (Inventory inventoryToInsert) s1 of
             (Some err, s2) \<Rightarrow> ((Some err, 0), s2)
           | (None, s2) \<Rightarrow>
               (case Commit_op st s2 of
                  (Some err, s3) \<Rightarrow> ((None, 0), Rollback_op s3)
                | (None, s3) \<Rightarrow> ((None, length (Inventory inventoryToInsert)), s3))))"

subsection \<open>SellProduct\<close>

text \<open>
  A loop over a result set either makes the function return, or ends and leaves a value
  in the variable \<^verbatim>\<open>err\<close>, which every \<^verbatim>\<open>rows.Scan\<close> assigns.
\<close>

datatype loop_exit = Return "error option" | Done "error option"

text \<open>
  The loop over the rows of \<^verbatim>\<open>productExist\<close>: a flag equal to 0 ends the sale. The
  flag is the local \<^verbatim>\<open>int\<close> variable that the source also calls \<^verbatim>\<open>productExist\<close>.
\<close>

fun productExist_loop :: "(error + int) list \<Rightarrow> error option \<Rightarrow> loop_exit" where
  "productExist_loop [] err = Done err"
| "productExist_loop (Inl e # rs) err = Return (Some e)"
| "productExist_loop (Inr exist # rs) err =
     (if exist = 0 then Return (Some ProductNotFoundError)
      else productExist_loop rs None)"

text \<open>The loop over the rows of \<^verbatim>\<open>inStock\<close>: a flag other than 0 ends the sale.\<close>

fun inStock_loop :: "(error + int) list \<Rightarrow> error option \<Rightarrow> loop_exit" where
  "inStock_loop [] err = Done err"
| "inStock_loop (Inl e # rs) err = Return (Some e)"
| "inStock_loop (Inr stockNo # rs) err =
     (if stockNo \<noteq> 0 then Return (Some OutOfStockError)
      else inStock_loop rs None)"

text \<open>
  The part of the function after \<^verbatim>\<open>defer transaction.Rollback()\<close>. Its argument
  \<open>err\<close> is the variable \<^verbatim>\<open>err\<close>, which holds the result of \<^verbatim>\<open>BeginTx\<close> on entry. The
  error of either query is bound to \<^verbatim>\<open>errQuery\<close>, and the branch that handles it
  returns \<^verbatim>\<open>err\<close>. \<^verbatim>\<open>rows.Err()\<close> is not read.
\<close>

definition SellProduct_body ::
  "'db store \<Rightarrow> string \<Rightarrow> error option \<Rightarrow> 'db session \<Rightarrow> error option \<times> 'db session" where
  "SellProduct_body st productName err s1 =
     (case Query_op (queryProductExist st productName) productExist [productName] s1 of
        (Inl errQuery, s2) \<Rightarrow> (err, s2)
      | (Inr (rows, rowsErr), s2) \<Rightarrow>
          (case productExist_loop rows err of
             Return r \<Rightarrow> (r, s2)
           | Done err1 \<Rightarrow>
               (case Query_op (queryInStock st productName) inStock [productName] s2 of
                  (Inl errQuery, s3) \<Rightarrow> (err1, s3)
                | (Inr (rows2, rowsErr2), s3) \<Rightarrow>
                    (case inStock_loop rows2 err1 of
                       Return r \<Rightarrow> (r, s3)
                     | Done err2 \<Rightarrow>
                         (case ExecContext_op (execUpdateSaleInfo st productName)
                                 updateSaleInfo [productName] s3 of
                            (Some e, s4) \<Rightarrow> (Some e, Rollback_op s4)
                          | (None, s4) \<Rightarrow>
                              (case Commit_op st s4 of
                                 (Some e, s5) \<Rightarrow> (Some e, Rollback_op s5)
                               | (None, s5) \<Rightarrow> (None, s5)))))))"

definition SellProduct ::
  "'db store \<Rightarrow> string \<Rightarrow> 'db session \<Rightarrow> error option \<times> 'db session" where
  "SellProduct st productName s =
     (case BeginTx_op st s of
        (Some err, s1) \<Rightarrow> (Some err, s1)
      | (None, s1) \<Rightarrow>
          (case SellProduct_body st productName None s1 of
             (r, s2) \<Rightarrow> (r, Rollback_op s2)))"

subsection \<open>A store to run the engine on\<close>

text \<open>
  A small store for concrete runs. Its contents are the list of keys written so far; the
  answers to the three queries and to the commit are fixed by the arguments; an insert
  of the article id \<open>''bad''\<close> is refused.
\<close>

definition refused :: error where
  "refused = StoreError ''insert refused''"

definition fixed_store ::
  "(string \<times> string) list \<Rightarrow> error + int rows \<Rightarrow> error + int rows \<Rightarrow> error option
     \<Rightarrow> string list store" where
  "fixed_store avail existAnswer stockAnswer commitAnswer =
     \<lparr>beginTx = (\<lambda>d. None),
      queryGetProductStock = (\<lambda>d. Inr (map Inr avail, None)),
      queryProductExist = (\<lambda>p d. existAnswer),
      queryInStock = (\<lambda>p d. stockAnswer),
      execUpdateSaleInfo = (\<lambda>p d. Inr (d @ [p])),
      execInsertProduct = (\<lambda>p a n d. if a = ''bad'' then Inl refused else Inr (d @ [a])),
      execInsertStock = (\<lambda>a n q d. if a = ''bad'' then Inl refused else Inr (d @ [a])),
      commitTx = (\<lambda>d. commitAnswer)\<rparr>"

definition fresh :: "string list session" where
  "fresh = \<lparr>persisted = [], txn = None, calls = []\<rparr>"

definition lost :: error where
  "lost = StoreError ''connection lost''"

text \<open>Payloads for concrete runs: two batches the store accepts, two with a refused id.\<close>

definition two_stocks :: Inventory where
  "two_stocks =
     \<lparr>Inventory =
        [\<lparr>Stock.ArtId = ''1'', Stock.Name = ''leg'', Stock = ''12''\<rparr>,
         \<lparr>Stock.ArtId = ''2'', Stock.Name = ''screw'', Stock = ''17''\<rparr>]\<rparr>"

definition stocks_with_bad :: Inventory where
  "stocks_with_bad =
     \<lparr>Inventory =
        [\<lparr>Stock.ArtId = ''1'', Stock.Name = ''leg'', Stock = ''12''\<rparr>,
         \<lparr>Stock.ArtId = ''bad'', Stock.Name = ''screw'', Stock = ''17''\<rparr>,
         \<lparr>Stock.ArtId = ''3'', Stock.Name = ''seat'', Stock = ''2''\<rparr>]\<rparr>"

definition dining :: Products where
  "dining =
     \<lparr>Products =
        [\<lparr>Product.Name = ''chair'',
          ContainArticles = [\<lparr>Article.ArtId = ''1'', AmountOf = ''4''\<rparr>,
                             \<lparr>Article.ArtId = ''2'', AmountOf = ''8''\<rparr>]\<rparr>,
         \<lparr>Product.Name = ''table'',
          ContainArticles = [\<lparr>Article.ArtId = ''1'', AmountOf = ''4''\<rparr>]\<rparr>]\<rparr>"

definition dining_with_bad :: Products where
  "dining_with_bad =
     \<lparr>Products =
        [\<lparr>Product.Name = ''chair'',
          ContainArticles = [\<lparr>Article.ArtId = ''1'', AmountOf = ''4''\<rparr>,
                             \<lparr>Article.ArtId = ''bad'', AmountOf = ''8''\<rparr>]\<rparr>,
         \<lparr>Product.Name = ''table'',
          ContainArticles = [\<lparr>Article.ArtId = ''1'', AmountOf = ''4''\<rparr>]\<rparr>]\<rparr>"

text \<open>The same store under four answers: all well, a failing commit, a product that is
  not registered, a product that is registered and out of stock.\<close>

definition accepting :: "string list store" where
  "accepting = fixed_store [] (Inr ([Inr 1], None)) (Inr ([Inr 0], None)) None"

definition commit_failing :: "string list store" where
  "commit_failing = fixed_store [] (Inr ([Inr 1], None)) (Inr ([Inr 0], None)) (Some lost)"

definition unregistered :: "string list store" where
  "unregistered = fixed_store [] (Inr ([Inr 0], None)) (Inr ([Inr 0], None)) None"

definition depleted :: "string list store" where
  "depleted = fixed_store [] (Inr ([Inr 1], None)) (Inr ([Inr 1], None)) None"

text \<open>And with a query that fails: the existence check, or the stock check.\<close>

definition exist_query_failing :: "string list store" where
  "exist_query_failing = fixed_store [] (Inl lost) (Inr ([Inr 0], None)) None"

definition stock_query_failing :: "string list store" where
  "stock_query_failing = fixed_store [] (Inr ([Inr 1], None)) (Inl lost) None"

subsection \<open>What a batch asks of the store\<close>

text \<open>
  The contents after a sequence of statements, each run on the result of the one before
  it; the first refusal ends the sequence with its error.
\<close>

fun exec_all :: "('db \<Rightarrow> error + 'db) list \<Rightarrow> 'db \<Rightarrow> error + 'db" where
  "exec_all [] d = Inr d"
| "exec_all (x # xs) d = (case x d of Inl e \<Rightarrow> Inl e | Inr d' \<Rightarrow> exec_all xs d')"

text \<open>
  The composition rows of a list of products, in the order of the two loops of
  \<^verbatim>\<open>UploadProducts\<close>: product name, article id, amount.
\<close>

definition composition_rows :: "Product list \<Rightarrow> (string \<times> string \<times> string) list" where
  "composition_rows ps =
     concat (map (\<lambda>p. map (\<lambda>c. (Product.Name p, Article.ArtId c, AmountOf c))
                          (ContainArticles p)) ps)"

subsection \<open>Decimal texts\<close>

text \<open>
  The text without one leading sign, the decimal digits it starts with, and the number
  these digits denote: the terms in which the result of \<^verbatim>\<open>ParseInt\<close> is described.
\<close>

definition decimal_digit :: "char \<Rightarrow> bool" where
  "decimal_digit c = (48 \<le> (of_char c :: nat) \<and> (of_char c :: nat) \<le> 57)"

definition decimal_value :: "string \<Rightarrow> nat" where
  "decimal_value ds = foldl (\<lambda>a c. a * 10 + (of_char c - 48)) 0 ds"

definition unsigned_part :: "string \<Rightarrow> string" where
  "unsigned_part t =
     (case t of
        [] \<Rightarrow> []
      | c # cs \<Rightarrow> if c = CHR ''+'' \<or> c = CHR ''-'' then cs else t)"

definition leading_digits :: "string \<Rightarrow> string" where
  "leading_digits t = takeWhile decimal_digit (unsigned_part t)"

section \<open>Properties\<close>

lemmas ParseInt_eval = ParseInt_def ParseUint_def digit_of_def lower_def maxUint64_def

lemmas store_ops =
  BeginTx_op_def Query_op_def ExecContext_op_def Commit_op_def Rollback_op_def log_call_def

subsection \<open>Reading the product stock\<close>

lemma productStock_loop_scanned:
  "productStock_loop (map Inr rs) stocks =
     Inr (stocks @ map (\<lambda>(n, t). \<lparr>ProductStock.Name = n, AvailableProductNo = t\<rparr>)
                     (filter (\<lambda>(n, t). fst (ParseInt t) \<noteq> 0) rs))"
  by (induction rs arbitrary: stocks) (auto simp: Let_def)

lemma GetProductStock_scanned:
  assumes "beginTx st (persisted s) = None"
    and "queryGetProductStock st (persisted s) = Inr (map Inr rs, None)"
  shows "fst (GetProductStock st s) =
     (None, map (\<lambda>(n, t). \<lparr>ProductStock.Name = n, AvailableProductNo = t\<rparr>)
               (filter (\<lambda>(n, t). fst (ParseInt t) \<noteq> 0) rs))"
  using assms
  by (simp add: GetProductStock_def GetProductStock_body_def store_ops
      productStock_loop_scanned)

lemma ParseInt_syntax_zero:
  "snd (ParseInt t) = Some ErrSyntax \<Longrightarrow> fst (ParseInt t) = 0"
  by (auto simp: ParseInt_def Let_def split: if_splits prod.splits)

lemma ParseInt_range_nonzero:
  "snd (ParseInt t) = Some ErrRange \<Longrightarrow> fst (ParseInt t) \<noteq> 0"
  by (auto simp: ParseInt_def Let_def split: if_splits prod.splits)

lemma ParseInt_range_bound:
  "snd (ParseInt t) = Some ErrRange \<Longrightarrow>
     fst (ParseInt t) = 0x7FFFFFFFFFFFFFFF \<or> fst (ParseInt t) = 0x8000000000000000"
  by (auto simp: ParseInt_def Let_def split: if_splits prod.splits)

subsection \<open>ParseInt in terms of the text\<close>

text \<open>
  The loop of \<^verbatim>\<open>ParseUint\<close> reads decimal digits as long as the number read so far
  fits 64 bits; it ends with a range error at the digit where it no longer fits, and with
  a syntax error at a byte that is no decimal digit, whichever comes first.
\<close>

lemma of_char_less_256: "(of_char c :: nat) < 256"
proof -
  have "(of_char c :: nat) mod 256 = of_char c" by simp
  then show ?thesis by (metis mod_less_divisor zero_less_numeral)
qed

lemma unat_char_word: "unat (of_nat (of_char c) :: 8 word) = of_char c"
  using of_char_less_256 [of c] by (simp add: unat_of_nat)

lemma cutoff_eq: "maxUint64 div 10 + 1 = (1844674407370955162 :: 64 word)"
  by (simp add: maxUint64_def)

lemma digit_of_digit:
  assumes "decimal_digit c"
  shows "\<exists>d. digit_of (of_nat (of_char c)) = Some d \<and> d < 10 \<and> unat d = of_char c - 48"
proof -
  let ?w = "of_nat (of_char c) :: 8 word"
  from assms have r: "48 \<le> unat ?w" "unat ?w \<le> 57"
    by (simp_all add: decimal_digit_def unat_char_word)
  then have le: "0x30 \<le> ?w" "?w \<le> 0x39"
    by (simp_all add: word_le_nat_alt)
  then have d: "digit_of ?w = Some (?w - 0x30)" by (simp add: digit_of_def)
  from le have u: "unat (?w - 0x30) = unat ?w - 48" by (simp add: unat_sub)
  with r have "?w - 0x30 < 10" by (simp add: word_less_nat_alt)
  with d u show ?thesis by (simp add: unat_char_word)
qed

lemma digit_of_other:
  assumes "\<not> decimal_digit c"
  shows "digit_of (of_nat (of_char c)) = None
       \<or> (\<exists>d. digit_of (of_nat (of_char c)) = Some d \<and> 10 \<le> d)"
proof -
  let ?w = "of_nat (of_char c) :: 8 word"
  from assms have nd: "\<not> (0x30 \<le> ?w \<and> ?w \<le> 0x39)"
    by (simp add: decimal_digit_def word_le_nat_alt unat_char_word)
  show ?thesis
  proof (cases "0x61 \<le> lower ?w \<and> lower ?w \<le> 0x7A")
    case False
    with nd show ?thesis by (auto simp: digit_of_def)
  next
    case True
    then have r: "97 \<le> unat (lower ?w)" "unat (lower ?w) \<le> 122"
      by (simp_all add: word_le_nat_alt)
    from True have u: "unat (lower ?w - 0x61) = unat (lower ?w) - 97"
      by (simp add: unat_sub)
    with r have "unat (lower ?w - 0x61) + unat (10 :: 8 word) < 2 ^ LENGTH(8)" by simp
    then have "unat (lower ?w - 0x61 + 10) = unat (lower ?w - 0x61) + unat (10 :: 8 word)"
      by (simp only: unat_add_lem)
    with u r have "10 \<le> lower ?w - 0x61 + 10" by (simp add: word_le_nat_alt)
    with nd True show ?thesis by (auto simp: digit_of_def)
  qed
qed

lemma foldl_digits_ge:
  "(a::nat) \<le> foldl (\<lambda>a c. a * 10 + (of_char c - 48)) a ds"
proof (induction ds arbitrary: a)
  case Nil
  show ?case by simp
next
  case (Cons c ds)
  have "a \<le> a * 10 + (of_char c - 48)" by simp
  also have "\<dots> \<le> foldl (\<lambda>a c. a * 10 + (of_char c - 48)) (a * 10 + (of_char c - 48)) ds"
    by (rule Cons.IH)
  finally show ?case by simp
qed

lemma unat_shift_digit:
  assumes "unat n * 10 + k < 2 ^ 64"
  shows "unat (n * 10 + of_nat k :: 64 word) = unat n * 10 + k"
proof -
  have "n * 10 + of_nat k = (of_nat (unat n * 10 + k) :: 64 word)" by simp
  then have "unat (n * 10 + of_nat k :: 64 word) = (unat n * 10 + k) mod 2 ^ LENGTH(64)"
    by (simp only: unat_of_nat)
  with assms show ?thesis by simp
qed

lemma ParseUint_loop_digit:
  assumes "decimal_digit c"
  shows "ParseUint_loop (c # cs) n =
     (if unat n * 10 + (of_char c - 48) < 2 ^ 64
      then ParseUint_loop cs (n * 10 + of_nat (of_char c - 48))
      else (maxUint64, Some ErrRange))"
proof -
  let ?k = "of_char c - 48 :: nat"
  from digit_of_digit [OF assms] obtain d where
    d: "digit_of (of_nat (of_char c)) = Some d" "d < 10" "unat d = ?k" by blast
  from d(2) have k: "?k < 10" using d(3) by (simp add: word_less_nat_alt)
  from d(2) have nd: "\<not> 10 \<le> d" by simp
  have "unat (ucast d :: 64 word) = ?k"
    using d(3) k by (simp add: unsigned_ucast_eq take_bit_nat_eq_self)
  moreover have "unat (of_nat ?k :: 64 word) = ?k"
    using k by (simp add: unat_of_nat)
  ultimately have ud: "(ucast d :: 64 word) = of_nat ?k"
    by (simp add: word_unat_eq_iff)
  have uk: "unat (of_nat ?k :: 64 word) = ?k"
    using k by (simp add: unat_of_nat)
  show ?thesis
  proof (cases "1844674407370955162 \<le> n")
    case True
    then have "1844674407370955162 \<le> unat n" by (simp add: word_le_nat_alt)
    then have "\<not> unat n * 10 + ?k < 2 ^ 64" by simp
    with True d(1) nd show ?thesis by (simp add: cutoff_eq)
  next
    case False
    then have small: "unat n < 1844674407370955162" by (simp add: word_le_nat_alt)
    then have "unat n * unat (10 :: 64 word) < 2 ^ LENGTH(64)" by simp
    then have um: "unat (n * 10) = unat n * 10"
      by (simp add: unat_mult_lem [THEN iffD1])
    show ?thesis
    proof (cases "unat n * 10 + ?k < 2 ^ 64")
      case fits: True
      note ua = unat_shift_digit [OF fits]
      then have "\<not> n * 10 + of_nat ?k < n * 10" using um by (simp add: word_less_nat_alt)
      moreover have "\<not> n * 10 + of_nat ?k > maxUint64"
        using ua fits by (simp add: maxUint64_def word_less_nat_alt)
      ultimately show ?thesis using False d(1) nd fits
        by (simp add: cutoff_eq Let_def ud)
    next
      case over: False
      have "unat (n * 10 + of_nat ?k :: 64 word) = (unat n * 10 + ?k) mod 2 ^ 64"
        using um uk by (simp add: unat_word_ariths)
      also from over small k have "\<dots> = unat n * 10 + ?k - 2 ^ 64"
        by (simp add: mod_if)
      finally have "unat (n * 10 + of_nat ?k :: 64 word) < unat (n * 10)"
        using um k over by simp
      then have "n * 10 + of_nat ?k < n * 10" by (simp add: word_less_nat_alt)
      with False d(1) nd over show ?thesis
        by (simp add: cutoff_eq Let_def ud)
    qed
  qed
qed

lemma ParseUint_loop_other:
  assumes "\<not> decimal_digit c"
  shows "ParseUint_loop (c # cs) n = (0, Some ErrSyntax)"
  using digit_of_other [OF assms] by auto

lemma ParseUint_loop_digits:
  "\<forall>c \<in> set ds. decimal_digit c \<Longrightarrow>
     ParseUint_loop ds n =
       (if foldl (\<lambda>a c. a * 10 + (of_char c - 48)) (unat n) ds < 2 ^ 64
        then (of_nat (foldl (\<lambda>a c. a * 10 + (of_char c - 48)) (unat n) ds), None)
        else (maxUint64, Some ErrRange))"
proof (induction ds arbitrary: n)
  case Nil
  have "unat n < 2 ^ LENGTH(64)" by (rule unsigned_less)
  then have "unat n < 2 ^ 64" by simp
  then show ?case by simp
next
  case (Cons c ds)
  let ?s = "unat n * 10 + (of_char c - 48)"
  from Cons.prems have c: "decimal_digit c" and ds: "\<forall>c \<in> set ds. decimal_digit c"
    by simp_all
  show ?case
  proof (cases "?s < 2 ^ 64")
    case True
    from True show ?thesis
      by (simp add: ParseUint_loop_digit [OF c] Cons.IH [OF ds] unat_shift_digit [OF True]
          del: ParseUint_loop.simps)
  next
    case False
    with foldl_digits_ge [of ?s ds]
    have "\<not> foldl (\<lambda>a c. a * 10 + (of_char c - 48)) ?s ds < 2 ^ 64" by simp
    with False show ?thesis
      by (simp add: ParseUint_loop_digit [OF c] del: ParseUint_loop.simps)
  qed
qed

lemma ParseUint_loop_digits_then_other:
  "\<forall>c \<in> set ds. decimal_digit c \<Longrightarrow> \<not> decimal_digit x \<Longrightarrow>
     ParseUint_loop (ds @ x # rest) n =
       (if foldl (\<lambda>a c. a * 10 + (of_char c - 48)) (unat n) ds < 2 ^ 64
        then (0, Some ErrSyntax)
        else (maxUint64, Some ErrRange))"
proof (induction ds arbitrary: n)
  case Nil
  have "unat n < 2 ^ LENGTH(64)" by (rule unsigned_less)
  then have "unat n < 2 ^ 64" by simp
  with Nil show ?case
    by (simp add: ParseUint_loop_other del: ParseUint_loop.simps)
next
  case (Cons c ds)
  let ?s = "unat n * 10 + (of_char c - 48)"
  from Cons.prems have c: "decimal_digit c" and ds: "\<forall>c \<in> set ds. decimal_digit c"
    by simp_all
  show ?case
  proof (cases "?s < 2 ^ 64")
    case True
    from True show ?thesis
      by (simp add: ParseUint_loop_digit [OF c] Cons.IH [OF ds Cons.prems(2)]
          unat_shift_digit [OF True] del: ParseUint_loop.simps)
  next
    case False
    with foldl_digits_ge [of ?s ds]
    have "\<not> foldl (\<lambda>a c. a * 10 + (of_char c - 48)) ?s ds < 2 ^ 64" by simp
    with False show ?thesis
      by (simp add: ParseUint_loop_digit [OF c] del: ParseUint_loop.simps)
  qed
qed

lemma ParseUint_text:
  "ParseUint body =
     (if 2 ^ 64 \<le> decimal_value (takeWhile decimal_digit body)
      then (maxUint64, Some ErrRange)
      else if takeWhile decimal_digit body \<noteq> body \<or> body = [] then (0, Some ErrSyntax)
      else (of_nat (decimal_value body), None))"
proof (cases "body = []")
  case True
  then show ?thesis by (simp add: ParseUint_def decimal_value_def)
next
  case False
  define ds where "ds = takeWhile decimal_digit body"
  have digits: "\<forall>c \<in> set ds. decimal_digit c"
    by (auto simp: ds_def dest: set_takeWhileD)
  have P: "ParseUint body = ParseUint_loop body 0"
    using False by (simp add: ParseUint_def)
  show ?thesis
  proof (cases "dropWhile decimal_digit body")
    case Nil
    then have "\<forall>c \<in> set body. decimal_digit c" by (simp add: dropWhile_eq_Nil_conv)
    then have all: "ds = body" by (simp add: ds_def takeWhile_eq_all_conv)
    from ParseUint_loop_digits [OF digits, of 0]
    have "ParseUint_loop ds 0 =
       (if decimal_value ds < 2 ^ 64 then (of_nat (decimal_value ds), None)
        else (maxUint64, Some ErrRange))"
      by (simp add: decimal_value_def)
    then have "ParseUint body =
       (if decimal_value ds < 2 ^ 64 then (of_nat (decimal_value body), None)
        else (maxUint64, Some ErrRange))"
      by (simp add: P all)
    moreover have "takeWhile decimal_digit body = body" using all by (simp add: ds_def)
    ultimately show ?thesis using False
      by (simp add: ds_def [symmetric] not_le)
  next
    case (Cons x rest)
    have "\<not> decimal_digit (hd (dropWhile decimal_digit body))"
      by (rule hd_dropWhile) (simp add: Cons)
    then have x: "\<not> decimal_digit x" by (simp add: Cons)
    have "takeWhile decimal_digit body @ dropWhile decimal_digit body = body"
      by (rule takeWhile_dropWhile_id)
    then have split: "ds @ x # rest = body" by (simp only: Cons ds_def)
    have "x \<in> set (ds @ x # rest)" by simp
    then have "x \<in> set body" by (simp only: split)
    with x have "\<not> (\<forall>c \<in> set body. decimal_digit c)" by blast
    then have ne: "takeWhile decimal_digit body \<noteq> body"
      by (simp add: takeWhile_eq_all_conv)
    from ParseUint_loop_digits_then_other [OF digits x, of rest 0]
    have "ParseUint_loop (ds @ x # rest) 0 =
       (if decimal_value ds < 2 ^ 64 then (0, Some ErrSyntax)
        else (maxUint64, Some ErrRange))"
      by (simp add: decimal_value_def)
    then have "ParseUint body =
       (if decimal_value ds < 2 ^ 64 then (0, Some ErrSyntax)
        else (maxUint64, Some ErrRange))"
      by (simp only: P split)
    with ne show ?thesis
      by (simp add: ds_def [symmetric] not_le)
  qed
qed

lemma unsigned_part_Cons:
  "unsigned_part (c # cs) = (if c = CHR ''+'' \<or> c = CHR ''-'' then cs else c # cs)"
  by (simp add: unsigned_part_def)

text \<open>The result of \<^verbatim>\<open>ParseInt\<close>, read off the text.\<close>

lemma ParseInt_text:
  "ParseInt t =
     (let neg = (t \<noteq> [] \<and> hd t = CHR ''-'');
          v = decimal_value (leading_digits t)
      in if 2 ^ 64 \<le> v
         then (if neg then 0x8000000000000000 else 0x7FFFFFFFFFFFFFFF, Some ErrRange)
         else if leading_digits t \<noteq> unsigned_part t \<or> unsigned_part t = []
         then (0, Some ErrSyntax)
         else if \<not> neg \<and> 2 ^ 63 \<le> v then (0x7FFFFFFFFFFFFFFF, Some ErrRange)
         else if neg \<and> 2 ^ 63 < v then (0x8000000000000000, Some ErrRange)
         else (if neg then - of_nat v else of_nat v, None))"
proof (cases t)
  case Nil
  then show ?thesis
    by (simp add: ParseInt_def unsigned_part_def leading_digits_def decimal_value_def)
next
  case (Cons c cs)
  define body where "body = unsigned_part t"
  define v where "v = decimal_value (leading_digits t)"
  define neg where "neg \<longleftrightarrow> hd t = CHR ''-''"
  from Cons have ne: "t \<noteq> []" by simp
  have ld: "takeWhile decimal_digit body = leading_digits t"
    by (simp add: leading_digits_def body_def)
  have P: "ParseInt t =
        (case ParseUint body of (un, err) \<Rightarrow>
           if err = Some ErrSyntax then (0, err)
           else if \<not> neg \<and> un \<ge> 0x8000000000000000
           then (0x7FFFFFFFFFFFFFFF, Some ErrRange)
           else if neg \<and> un > 0x8000000000000000
           then (0x8000000000000000, Some ErrRange)
           else (if neg then - un else un, None))"
    unfolding body_def neg_def Cons
    by (cases "c = CHR ''+'' \<or> c = CHR ''-''")
       (auto simp: ParseInt_def unsigned_part_Cons Let_def split: prod.splits)
  have goal: "ParseInt t =
      (if 2 ^ 64 \<le> v
         then (if neg then 0x8000000000000000 else 0x7FFFFFFFFFFFFFFF, Some ErrRange)
         else if leading_digits t \<noteq> body \<or> body = []
         then (0, Some ErrSyntax)
         else if \<not> neg \<and> 2 ^ 63 \<le> v then (0x7FFFFFFFFFFFFFFF, Some ErrRange)
         else if neg \<and> 2 ^ 63 < v then (0x8000000000000000, Some ErrRange)
         else (if neg then - of_nat v else of_nat v, None))"
  proof (cases "2 ^ 64 \<le> v")
    case True
    then have "ParseUint body = (maxUint64, Some ErrRange)"
      by (simp add: ParseUint_text ld v_def)
    with True show ?thesis
      by (simp add: P maxUint64_def)
  next
    case small: False
    show ?thesis
    proof (cases "leading_digits t \<noteq> body \<or> body = []")
      case True
      with small have "ParseUint body = (0, Some ErrSyntax)"
        by (auto simp: ParseUint_text ld v_def)
      with True small show ?thesis
        by (simp add: P)
    next
      case False
      then have whole: "leading_digits t = body" "body \<noteq> []" by simp_all
      with small have pu: "ParseUint body = (of_nat v, None)"
        by (simp add: ParseUint_text ld v_def)
      from small have u: "unat (of_nat v :: 64 word) = v"
        by (simp add: unat_of_nat)
      have ge: "(0x8000000000000000 :: 64 word) \<le> of_nat v \<longleftrightarrow> 2 ^ 63 \<le> v"
        by (simp add: word_le_nat_alt u)
      have gt: "(0x8000000000000000 :: 64 word) < of_nat v \<longleftrightarrow> 2 ^ 63 < v"
        by (simp add: word_less_nat_alt u)
      from small False show ?thesis
        by (simp add: P pu ge gt)
    qed
  qed
  from goal ne show ?thesis
    by (simp add: Let_def v_def body_def neg_def)
qed

lemma ParseInt_nonzero_text:
  "fst (ParseInt t) \<noteq> 0 \<longleftrightarrow>
     decimal_value (leading_digits t) \<noteq> 0
     \<and> (leading_digits t = unsigned_part t \<or> 2 ^ 64 \<le> decimal_value (leading_digits t))"
proof -
  define v where "v = decimal_value (leading_digits t)"
  define neg where "neg \<longleftrightarrow> t \<noteq> [] \<and> hd t = CHR ''-''"
  have T: "ParseInt t =
      (if 2 ^ 64 \<le> v
         then (if neg then 0x8000000000000000 else 0x7FFFFFFFFFFFFFFF, Some ErrRange)
         else if leading_digits t \<noteq> unsigned_part t \<or> unsigned_part t = []
         then (0, Some ErrSyntax)
         else if \<not> neg \<and> 2 ^ 63 \<le> v then (0x7FFFFFFFFFFFFFFF, Some ErrRange)
         else if neg \<and> 2 ^ 63 < v then (0x8000000000000000, Some ErrRange)
         else (if neg then - of_nat v else of_nat v, None))"
    by (simp add: ParseInt_text Let_def v_def neg_def)
  have goal: "fst (ParseInt t) \<noteq> 0 \<longleftrightarrow>
     v \<noteq> 0 \<and> (leading_digits t = unsigned_part t \<or> 2 ^ 64 \<le> v)"
  proof (cases "2 ^ 64 \<le> v")
    case True
    then have "fst (ParseInt t) \<noteq> 0" by (simp add: T)
    moreover from True have "v \<noteq> 0" by auto
    ultimately show ?thesis using True by simp
  next
    case small: False
    show ?thesis
    proof (cases "leading_digits t \<noteq> unsigned_part t \<or> unsigned_part t = []")
      case True
      with small have "fst (ParseInt t) = 0" by (simp add: T)
      moreover have "v = 0" if "unsigned_part t = []"
        using that by (simp add: v_def leading_digits_def decimal_value_def)
      ultimately show ?thesis using True small by auto
    next
      case False
      then have whole: "leading_digits t = unsigned_part t" by simp
      from small have u: "unat (of_nat v :: 64 word) = v"
        by (simp add: unat_of_nat)
      have z: "(of_nat v :: 64 word) = 0 \<longleftrightarrow> v = 0"
      proof
        assume "(of_nat v :: 64 word) = 0"
        then have "unat (of_nat v :: 64 word) = 0" by simp
        with u show "v = 0" by simp
      next
        assume "v = 0"
        then show "(of_nat v :: 64 word) = 0" by simp
      qed
      have T': "ParseInt t =
         (if \<not> neg \<and> 2 ^ 63 \<le> v then (0x7FFFFFFFFFFFFFFF, Some ErrRange)
          else if neg \<and> 2 ^ 63 < v then (0x8000000000000000, Some ErrRange)
          else (if neg then - of_nat v else of_nat v, None))"
        using small False by (simp only: T if_False)
      show ?thesis
      proof (cases "\<not> neg \<and> 2 ^ 63 \<le> v")
        case True
        then have "ParseInt t = (0x7FFFFFFFFFFFFFFF, Some ErrRange)"
          by (simp add: T')
        then have "fst (ParseInt t) \<noteq> 0" by simp
        moreover from True have "v \<noteq> 0" by auto
        ultimately show ?thesis using whole by simp
      next
        case np: False
        show ?thesis
        proof (cases "neg \<and> 2 ^ 63 < v")
          case True
          with np have "ParseInt t = (0x8000000000000000, Some ErrRange)"
            by (simp add: T')
          then have "fst (ParseInt t) \<noteq> 0" by simp
          moreover from True have "v \<noteq> 0" by auto
          ultimately show ?thesis using whole by simp
        next
          case False
          with np have "ParseInt t = (if neg then - of_nat v else of_nat v, None)"
            by (simp add: T')
          then have "fst (ParseInt t) = 0 \<longleftrightarrow> (of_nat v :: 64 word) = 0"
            by (cases neg) simp_all
          with z whole show ?thesis by simp
        qed
      qed
    qed
  qed
  then show ?thesis by (simp only: v_def)
qed

text \<open>
  Claim C9, as the code has it. When the transaction opens and the store delivers the rows
  \<open>rs\<close>, each scanned without error, \<^verbatim>\<open>GetProductStock\<close> returns no error and exactly
  the rows for which \<^verbatim>\<open>ParseInt\<close> gives a number other than 0, in the order of the store,
  each with its text unchanged; the error of \<^verbatim>\<open>ParseInt\<close> is never raised. In terms of
  the text these are exactly the rows where, after one optional leading sign, the decimal
  digits the text starts with denote a number other than 0 and either make up the whole
  rest of the text or denote at least \<open>2 ^ 64\<close>. A row on which \<^verbatim>\<open>ParseInt\<close> reports a
  syntax error counts as 0 and is left out; a row on which it reports a range error
  counts as the largest or the smallest \<^verbatim>\<open>int64\<close>, which is not 0, and is kept.
\<close>

theorem GetProductStock_keeps_nonzero_rows:
  assumes "beginTx st (persisted s) = None"
    and "queryGetProductStock st (persisted s) = Inr (map Inr rs, None)"
  shows "fst (GetProductStock st s) =
           (None, map (\<lambda>(n, t). \<lparr>ProductStock.Name = n, AvailableProductNo = t\<rparr>)
                     (filter (\<lambda>(n, t). fst (ParseInt t) \<noteq> 0) rs))
       \<and> fst (GetProductStock st s) =
           (None, map (\<lambda>(n, t). \<lparr>ProductStock.Name = n, AvailableProductNo = t\<rparr>)
                     (filter (\<lambda>(n, t). decimal_value (leading_digits t) \<noteq> 0
                                \<and> (leading_digits t = unsigned_part t
                                    \<or> 2 ^ 64 \<le> decimal_value (leading_digits t))) rs))
       \<and> (\<forall>(n, t) \<in> set rs. snd (ParseInt t) = Some ErrSyntax \<longrightarrow>
             \<lparr>ProductStock.Name = n, AvailableProductNo = t\<rparr>
               \<notin> set (snd (fst (GetProductStock st s))))
       \<and> (\<forall>(n, t) \<in> set rs. snd (ParseInt t) = Some ErrRange \<longrightarrow>
             \<lparr>ProductStock.Name = n, AvailableProductNo = t\<rparr>
               \<in> set (snd (fst (GetProductStock st s))))
       \<and> (\<forall>t. snd (ParseInt t) = Some ErrSyntax \<longrightarrow> fst (ParseInt t) = 0)
       \<and> (\<forall>t. snd (ParseInt t) = Some ErrRange \<longrightarrow>
             fst (ParseInt t) = 0x7FFFFFFFFFFFFFFF \<or> fst (ParseInt t) = 0x8000000000000000)"
proof -
  let ?out = "snd (fst (GetProductStock st s))"
  have res: "fst (GetProductStock st s) =
           (None, map (\<lambda>(n, t). \<lparr>ProductStock.Name = n, AvailableProductNo = t\<rparr>)
                     (filter (\<lambda>(n, t). fst (ParseInt t) \<noteq> 0) rs))"
    by (rule GetProductStock_scanned [OF assms])
  have crit: "(\<lambda>(n :: string, t). fst (ParseInt t) \<noteq> 0) =
      (\<lambda>(n, t). decimal_value (leading_digits t) \<noteq> 0
                 \<and> (leading_digits t = unsigned_part t
                     \<or> 2 ^ 64 \<le> decimal_value (leading_digits t)))"
    by (simp only: ParseInt_nonzero_text)
  have res_text: "fst (GetProductStock st s) =
           (None, map (\<lambda>(n, t). \<lparr>ProductStock.Name = n, AvailableProductNo = t\<rparr>)
                     (filter (\<lambda>(n, t). decimal_value (leading_digits t) \<noteq> 0
                                \<and> (leading_digits t = unsigned_part t
                                    \<or> 2 ^ 64 \<le> decimal_value (leading_digits t))) rs))"
    using res by (simp only: crit)
  have syn: "\<lparr>ProductStock.Name = n, AvailableProductNo = t\<rparr> \<notin> set ?out"
    if "snd (ParseInt t) = Some ErrSyntax" for n t
    using ParseInt_syntax_zero [OF that] by (auto simp: res)
  have rng: "\<lparr>ProductStock.Name = n, AvailableProductNo = t\<rparr> \<in> set ?out"
    if "(n, t) \<in> set rs" and "snd (ParseInt t) = Some ErrRange" for n t
    using that(1) ParseInt_range_nonzero [OF that(2)] by (force simp: res)
  from res res_text syn rng ParseInt_syntax_zero ParseInt_range_bound
  show ?thesis by blast
qed

text \<open>
  The spec's example with four more rows: of widget 0, gadget 4, lamp n/a, desk
  9223372036854775808, shelf 99999999999999999999x and stool 12a the result holds
  gadget, desk and shelf. The text of shelf is no number, but its digits leave the range
  before the x is read.
\<close>

theorem GetProductStock_keeps_nonzero_rows_witness:
  "fst (GetProductStock
          (fixed_store [(''widget'', ''0''), (''gadget'', ''4''), (''lamp'', ''n/a''),
                        (''desk'', ''9223372036854775808''),
                        (''shelf'', ''99999999999999999999x''), (''stool'', ''12a'')]
             (Inr ([], None)) (Inr ([], None)) None) fresh) =
     (None, [\<lparr>ProductStock.Name = ''gadget'', AvailableProductNo = ''4''\<rparr>,
             \<lparr>ProductStock.Name = ''desk'', AvailableProductNo = ''9223372036854775808''\<rparr>,
             \<lparr>ProductStock.Name = ''shelf'',
              AvailableProductNo = ''99999999999999999999x''\<rparr>])
   \<and> snd (ParseInt ''n/a'') = Some ErrSyntax
   \<and> snd (ParseInt ''12a'') = Some ErrSyntax
   \<and> snd (ParseInt ''9223372036854775808'') = Some ErrRange
   \<and> snd (ParseInt ''99999999999999999999x'') = Some ErrRange"
proof -
  let ?rs = "[(''widget'', ''0''), (''gadget'', ''4''), (''lamp'', ''n/a''),
              (''desk'', ''9223372036854775808''),
              (''shelf'', ''99999999999999999999x''), (''stool'', ''12a'')]"
  let ?st = "fixed_store ?rs (Inr ([], None)) (Inr ([], None)) None"
  have h1: "beginTx ?st (persisted fresh) = None"
    by (simp add: fixed_store_def)
  have h2: "queryGetProductStock ?st (persisted fresh) = Inr (map Inr ?rs, None)"
    by (simp add: fixed_store_def)
  have p: "ParseInt ''0'' = (0, None)" "ParseInt ''4'' = (4, None)"
    "ParseInt ''n/a'' = (0, Some ErrSyntax)" "ParseInt ''12a'' = (0, Some ErrSyntax)"
    "ParseInt ''9223372036854775808'' = (0x7FFFFFFFFFFFFFFF, Some ErrRange)"
    "ParseInt ''99999999999999999999x'' = (0x7FFFFFFFFFFFFFFF, Some ErrRange)"
    by (simp_all add: ParseInt_eval word_le_nat_alt word_less_nat_alt)
  from conjunct1 [OF GetProductStock_keeps_nonzero_rows [OF h1 h2]] p
  show ?thesis by simp
qed

text \<open>
  Claim C9 as stated fails: the text 9223372036854775808 fails to parse (range error),
  yet its row is not treated as 0 and is part of the result.
\<close>

theorem GetProductStock_unparsed_row_counterexample:
  "snd (ParseInt ''9223372036854775808'') \<noteq> None
   \<and> fst (GetProductStock
            (fixed_store [(''desk'', ''9223372036854775808'')]
               (Inr ([], None)) (Inr ([], None)) None) fresh) =
       (None, [\<lparr>ProductStock.Name = ''desk'', AvailableProductNo = ''9223372036854775808''\<rparr>])"
  by (simp add: GetProductStock_def GetProductStock_body_def store_ops fixed_store_def
      fresh_def ParseInt_eval)

text \<open>
  Claim C10. A row whose text parses, without error, to a negative number is part of the
  result of \<^verbatim>\<open>GetProductStock\<close>, and the entry carries the text as the store gave it:
  only the number 0 is filtered out.
\<close>

theorem GetProductStock_keeps_negative_rows:
  assumes "beginTx st (persisted s) = None"
    and "queryGetProductStock st (persisted s) = Inr (map Inr rs, None)"
    and "(n, t) \<in> set rs"
    and "ParseInt t = (v, None)"
    and "sint v < 0"
  shows "fst (fst (GetProductStock st s)) = None
       \<and> \<lparr>ProductStock.Name = n, AvailableProductNo = t\<rparr>
           \<in> set (snd (fst (GetProductStock st s)))"
proof -
  from assms(4,5) have "fst (ParseInt t) \<noteq> 0" by auto
  with assms(3) show ?thesis
    by (force simp: GetProductStock_scanned [OF assms(1,2)])
qed

theorem GetProductStock_keeps_negative_rows_witness:
  "ParseInt ''-3'' = (- 3, None) \<and> sint (- 3 :: 64 word) < 0
   \<and> \<lparr>ProductStock.Name = ''widget'', AvailableProductNo = ''-3''\<rparr>
       \<in> set (snd (fst (GetProductStock
            (fixed_store [(''widget'', ''-3''), (''gadget'', ''0'')]
               (Inr ([], None)) (Inr ([], None)) None) fresh)))"
proof -
  let ?rs = "[(''widget'', ''-3''), (''gadget'', ''0'')]"
  let ?st = "fixed_store ?rs (Inr ([], None)) (Inr ([], None)) None"
  have h1: "beginTx ?st (persisted fresh) = None"
    by (simp add: fixed_store_def)
  have h2: "queryGetProductStock ?st (persisted fresh) = Inr (map Inr ?rs, None)"
    by (simp add: fixed_store_def)
  have h3: "(''widget'', ''-3'') \<in> set ?rs" by simp
  have h4: "ParseInt ''-3'' = (- 3, None)" by (simp add: ParseInt_eval)
  have h5: "sint (- 3 :: 64 word) < 0" by simp
  from GetProductStock_keeps_negative_rows [OF h1 h2 h3 h4 h5] h4 h5
  show ?thesis by simp
qed

subsection \<open>Calls on the transaction\<close>

lemma ExecContext_op_run:
  "ExecContext_op x name args s = (r, s') \<Longrightarrow>
     persisted s' = persisted s \<and> calls s' = calls s @ [ExecContext name args r]"
  by (auto simp: ExecContext_op_def log_call_def split: option.splits sum.splits)

lemma Rollback_op_run:
  "persisted (Rollback_op s) = persisted s \<and> txn (Rollback_op s) = None
     \<and> calls (Rollback_op s) = calls s @ [Rollback]"
  by (simp add: Rollback_op_def log_call_def)

lemma Commit_op_run:
  "Commit_op st s = (r, s') \<Longrightarrow>
     calls s' = calls s @ [Commit r] \<and> txn s' = None
     \<and> (r \<noteq> None \<longrightarrow> persisted s' = persisted s)"
  by (auto simp: Commit_op_def log_call_def split: option.splits)

lemma BeginTx_op_run:
  "BeginTx_op st s = (r, s') \<Longrightarrow>
     persisted s' = persisted s \<and> calls s' = calls s @ [BeginTx r]"
  by (auto simp: BeginTx_op_def log_call_def split: option.splits)

subsection \<open>The insert loops\<close>

text \<open>
  A loop of inserts leaves the persisted contents alone. Its trace is a run of accepted
  inserts, followed, when it returns an error, by the refused insert and the rollback.
\<close>

lemma insertStocks_run:
  "insertStocks st recs s = (r, s') \<Longrightarrow>
     persisted s' = persisted s \<and> (r \<noteq> None \<longrightarrow> txn s' = None) \<and>
     (\<exists>as a. calls s' = calls s @ map (\<lambda>a. ExecContext insertStock a None) as
        @ (case r of None \<Rightarrow> []
           | Some e \<Rightarrow> [ExecContext insertStock a (Some e), Rollback]))"
proof (induction recs arbitrary: s)
  case Nil
  then show ?case by (auto intro: exI [of _ "[]"])
next
  case (Cons rec recs)
  let ?args = "[Stock.ArtId rec, Stock.Name rec, Stock rec]"
  let ?exec = "ExecContext_op
     (execInsertStock st (Stock.ArtId rec) (Stock.Name rec) (Stock rec)) insertStock ?args s"
  obtain r1 s1 where ex: "?exec = (r1, s1)" by (cases ?exec)
  note run1 = ExecContext_op_run [OF ex]
  show ?case
  proof (cases r1)
    case None
    with Cons.prems ex have rest: "insertStocks st recs s1 = (r, s')" by simp
    from Cons.IH [OF rest] obtain as a where
      p: "persisted s' = persisted s1" "r \<noteq> None \<longrightarrow> txn s' = None" and
      c: "calls s' = calls s1 @ map (\<lambda>a. ExecContext insertStock a None) as
        @ (case r of None \<Rightarrow> []
           | Some e \<Rightarrow> [ExecContext insertStock a (Some e), Rollback])" by blast
    from c run1 None
    have "calls s' = calls s @ map (\<lambda>a. ExecContext insertStock a None) (?args # as)
        @ (case r of None \<Rightarrow> []
           | Some e \<Rightarrow> [ExecContext insertStock a (Some e), Rollback])"
      by simp
    with p run1 show ?thesis by metis
  next
    case (Some e)
    with Cons.prems ex have "r = Some e" "s' = Rollback_op s1" by simp_all
    with run1 Some show ?thesis
      by (auto simp: Rollback_op_run intro!: exI [of _ "[]"])
  qed
qed

lemma insertContains_run:
  "insertContains st name cs s = (r, s') \<Longrightarrow>
     persisted s' = persisted s \<and> (r \<noteq> None \<longrightarrow> txn s' = None) \<and>
     (\<exists>as a. calls s' = calls s @ map (\<lambda>a. ExecContext insertProduct a None) as
        @ (case r of None \<Rightarrow> []
           | Some e \<Rightarrow> [ExecContext insertProduct a (Some e), Rollback]))"
proof (induction cs arbitrary: s)
  case Nil
  then show ?case by (auto intro: exI [of _ "[]"])
next
  case (Cons contain cs)
  let ?args = "[name, Article.ArtId contain, AmountOf contain]"
  let ?exec = "ExecContext_op
     (execInsertProduct st name (Article.ArtId contain) (AmountOf contain))
     insertProduct ?args s"
  obtain r1 s1 where ex: "?exec = (r1, s1)" by (cases ?exec)
  note run1 = ExecContext_op_run [OF ex]
  show ?case
  proof (cases r1)
    case None
    with Cons.prems ex have rest: "insertContains st name cs s1 = (r, s')" by simp
    from Cons.IH [OF rest] obtain as a where
      p: "persisted s' = persisted s1" "r \<noteq> None \<longrightarrow> txn s' = None" and
      c: "calls s' = calls s1 @ map (\<lambda>a. ExecContext insertProduct a None) as
        @ (case r of None \<Rightarrow> []
           | Some e \<Rightarrow> [ExecContext insertProduct a (Some e), Rollback])" by blast
    from c run1 None
    have "calls s' = calls s @ map (\<lambda>a. ExecContext insertProduct a None) (?args # as)
        @ (case r of None \<Rightarrow> []
           | Some e \<Rightarrow> [ExecContext insertProduct a (Some e), Rollback])"
      by simp
    with p run1 show ?thesis by metis
  next
    case (Some e)
    with Cons.prems ex have "r = Some e" "s' = Rollback_op s1" by simp_all
    with run1 Some show ?thesis
      by (auto simp: Rollback_op_run intro!: exI [of _ "[]"])
  qed
qed

lemma insertProducts_run:
  "insertProducts st ps s = (r, s') \<Longrightarrow>
     persisted s' = persisted s \<and> (r \<noteq> None \<longrightarrow> txn s' = None) \<and>
     (\<exists>as a. calls s' = calls s @ map (\<lambda>a. ExecContext insertProduct a None) as
        @ (case r of None \<Rightarrow> []
           | Some e \<Rightarrow> [ExecContext insertProduct a (Some e), Rollback]))"
proof (induction ps arbitrary: s)
  case Nil
  then show ?case by (auto intro: exI [of _ "[]"])
next
  case (Cons product ps)
  let ?inner = "insertContains st (Product.Name product) (ContainArticles product) s"
  obtain r1 s1 where ex: "?inner = (r1, s1)" by (cases ?inner)
  from insertContains_run [OF ex] obtain as1 a1 where
    p1: "persisted s1 = persisted s" "r1 \<noteq> None \<longrightarrow> txn s1 = None" and
    c1: "calls s1 = calls s @ map (\<lambda>a. ExecContext insertProduct a None) as1
        @ (case r1 of None \<Rightarrow> []
           | Some e \<Rightarrow> [ExecContext insertProduct a1 (Some e), Rollback])" by blast
  show ?case
  proof (cases r1)
    case None
    with Cons.prems ex have rest: "insertProducts st ps s1 = (r, s')" by simp
    from Cons.IH [OF rest] obtain as a where
      p: "persisted s' = persisted s1" "r \<noteq> None \<longrightarrow> txn s' = None" and
      c: "calls s' = calls s1 @ map (\<lambda>a. ExecContext insertProduct a None) as
        @ (case r of None \<Rightarrow> []
           | Some e \<Rightarrow> [ExecContext insertProduct a (Some e), Rollback])" by blast
    from c c1 None
    have "calls s' = calls s @ map (\<lambda>a. ExecContext insertProduct a None) (as1 @ as)
        @ (case r of None \<Rightarrow> []
           | Some e \<Rightarrow> [ExecContext insertProduct a (Some e), Rollback])"
      by simp
    with p p1 show ?thesis by metis
  next
    case (Some e)
    with Cons.prems ex have "r = r1" "s' = s1" by simp_all
    with p1 c1 show ?thesis by blast
  qed
qed

subsection \<open>The four ways an upload ends\<close>

lemma UploadInventory_cases:
  assumes "UploadInventory st batch s = ((err, n), s')"
  obtains
    (begin_failed) e where "issued s s' = [BeginTx (Some e)]"
      "err = Some e" "n = 0" "persisted s' = persisted s"
  | (insert_failed) e as a where
      "issued s s' = BeginTx None # map (\<lambda>a. ExecContext insertStock a None) as
         @ [ExecContext insertStock a (Some e), Rollback]"
      "err = Some e" "n = 0" "persisted s' = persisted s" "txn s' = None"
  | (commit_failed) e as where
      "issued s s' = BeginTx None # map (\<lambda>a. ExecContext insertStock a None) as
         @ [Commit (Some e), Rollback]"
      "err = None" "n = 0" "persisted s' = persisted s" "txn s' = None"
  | (committed) as where
      "issued s s' = BeginTx None # map (\<lambda>a. ExecContext insertStock a None) as
         @ [Commit None]"
      "err = None" "n = length (Inventory batch)" "txn s' = None"
proof -
  obtain r1 s1 where b: "BeginTx_op st s = (r1, s1)" by (cases "BeginTx_op st s")
  note b_run = BeginTx_op_run [OF b]
  show thesis
  proof (cases r1)
    case (Some e)
    with assms b have "err = Some e" "n = 0" "s' = s1"
      by (simp_all add: UploadInventory_def)
    with b_run Some show thesis
      by (intro begin_failed [of e]) (simp_all add: issued_def)
  next
    case None
    obtain r2 s2 where l: "insertStocks st (Inventory batch) s1 = (r2, s2)"
      by (cases "insertStocks st (Inventory batch) s1")
    from insertStocks_run [OF l] obtain as a where
      p2: "persisted s2 = persisted s1" "r2 \<noteq> None \<longrightarrow> txn s2 = None" and
      c2: "calls s2 = calls s1 @ map (\<lambda>a. ExecContext insertStock a None) as
        @ (case r2 of None \<Rightarrow> []
           | Some e \<Rightarrow> [ExecContext insertStock a (Some e), Rollback])" by blast
    show thesis
    proof (cases r2)
      case (Some e)
      with assms b None l have "err = Some e" "n = 0" "s' = s2"
        by (simp_all add: UploadInventory_def)
      with b_run None p2 c2 Some show thesis
        by (intro insert_failed [of as a e]) (simp_all add: issued_def)
    next
      case ok: None
      obtain r3 s3 where c: "Commit_op st s2 = (r3, s3)" by (cases "Commit_op st s2")
      note c_run = Commit_op_run [OF c]
      show thesis
      proof (cases r3)
        case (Some e)
        with assms b None l ok c have "err = None" "n = 0" "s' = Rollback_op s3"
          by (simp_all add: UploadInventory_def)
        with b_run None p2 c2 ok c_run Some show thesis
          by (intro commit_failed [of as e]) (simp_all add: issued_def Rollback_op_run)
      next
        case fin: None
        with assms b None l ok c
        have "err = None" "n = length (Inventory batch)" "s' = s3"
          by (simp_all add: UploadInventory_def)
        with b_run None p2 c2 ok c_run fin show thesis
          by (intro committed [of as]) (simp_all add: issued_def)
      qed
    qed
  qed
qed

lemma UploadProducts_cases:
  assumes "UploadProducts st p s = ((err, n), s')"
  obtains
    (begin_failed) e where "issued s s' = [BeginTx (Some e)]"
      "err = Some e" "n = 0" "persisted s' = persisted s"
  | (insert_failed) e as a where
      "issued s s' = BeginTx None # map (\<lambda>a. ExecContext insertProduct a None) as
         @ [ExecContext insertProduct a (Some e), Rollback]"
      "err = Some e" "n = 0" "persisted s' = persisted s" "txn s' = None"
  | (commit_failed) e as where
      "issued s s' = BeginTx None # map (\<lambda>a. ExecContext insertProduct a None) as
         @ [Commit (Some e), Rollback]"
      "err = None" "n = length (Products p)" "persisted s' = persisted s" "txn s' = None"
  | (committed) as where
      "issued s s' = BeginTx None # map (\<lambda>a. ExecContext insertProduct a None) as
         @ [Commit None]"
      "err = None" "n = length (Products p)" "txn s' = None"
proof -
  obtain r1 s1 where b: "BeginTx_op st s = (r1, s1)" by (cases "BeginTx_op st s")
  note b_run = BeginTx_op_run [OF b]
  show thesis
  proof (cases r1)
    case (Some e)
    with assms b have "err = Some e" "n = 0" "s' = s1"
      by (simp_all add: UploadProducts_def)
    with b_run Some show thesis
      by (intro begin_failed [of e]) (simp_all add: issued_def)
  next
    case None
    obtain r2 s2 where l: "insertProducts st (Products p) s1 = (r2, s2)"
      by (cases "insertProducts st (Products p) s1")
    from insertProducts_run [OF l] obtain as a where
      p2: "persisted s2 = persisted s1" "r2 \<noteq> None \<longrightarrow> txn s2 = None" and
      c2: "calls s2 = calls s1 @ map (\<lambda>a. ExecContext insertProduct a None) as
        @ (case r2 of None \<Rightarrow> []
           | Some e \<Rightarrow> [ExecContext insertProduct a (Some e), Rollback])" by blast
    show thesis
    proof (cases r2)
      case (Some e)
      with assms b None l have "err = Some e" "n = 0" "s' = s2"
        by (simp_all add: UploadProducts_def)
      with b_run None p2 c2 Some show thesis
        by (intro insert_failed [of as a e]) (simp_all add: issued_def)
    next
      case ok: None
      obtain r3 s3 where c: "Commit_op st s2 = (r3, s3)" by (cases "Commit_op st s2")
      note c_run = Commit_op_run [OF c]
      show thesis
      proof (cases r3)
        case (Some e)
        with assms b None l ok c have "err = None" "n = length (Products p)"
          "s' = Rollback_op s3"
          by (simp_all add: UploadProducts_def)
        with b_run None p2 c2 ok c_run Some show thesis
          by (intro commit_failed [of as e]) (simp_all add: issued_def Rollback_op_run)
      next
        case fin: None
        with assms b None l ok c have "err = None" "n = length (Products p)" "s' = s3"
          by (simp_all add: UploadProducts_def)
        with b_run None p2 c2 ok c_run fin show thesis
          by (intro committed [of as]) (simp_all add: issued_def)
      qed
    qed
  qed
qed

lemma UploadInventory_committed:
  assumes "Commit None \<in> set (issued s (snd (UploadInventory st batch s)))"
  shows "fst (UploadInventory st batch s) = (None, length (Inventory batch))"
proof -
  obtain err n s' where run: "UploadInventory st batch s = ((err, n), s')"
    by (metis surj_pair)
  from run show ?thesis using assms
    by (cases rule: UploadInventory_cases) (auto simp: run)
qed

lemma UploadInventory_insert_failed:
  assumes "ExecContext insertStock a (Some e)
             \<in> set (issued s (snd (UploadInventory st batch s)))"
  shows "fst (UploadInventory st batch s) = (Some e, 0)
     \<and> persisted (snd (UploadInventory st batch s)) = persisted s
     \<and> txn (snd (UploadInventory st batch s)) = None
     \<and> last (issued s (snd (UploadInventory st batch s))) = Rollback
     \<and> (\<forall>r. Commit r \<notin> set (issued s (snd (UploadInventory st batch s))))"
proof -
  obtain err n s' where run: "UploadInventory st batch s = ((err, n), s')"
    by (metis surj_pair)
  from run show ?thesis using assms
    by (cases rule: UploadInventory_cases) (auto simp: run)
qed

lemma UploadProducts_committed:
  assumes "Commit None \<in> set (issued s (snd (UploadProducts st p s)))"
  shows "fst (UploadProducts st p s) = (None, length (Products p))"
proof -
  obtain err n s' where run: "UploadProducts st p s = ((err, n), s')"
    by (metis surj_pair)
  from run show ?thesis using assms
    by (cases rule: UploadProducts_cases) (auto simp: run)
qed

lemma UploadProducts_insert_failed:
  assumes "ExecContext insertProduct a (Some e)
             \<in> set (issued s (snd (UploadProducts st p s)))"
  shows "fst (UploadProducts st p s) = (Some e, 0)
     \<and> persisted (snd (UploadProducts st p s)) = persisted s
     \<and> txn (snd (UploadProducts st p s)) = None
     \<and> last (issued s (snd (UploadProducts st p s))) = Rollback
     \<and> (\<forall>r. Commit r \<notin> set (issued s (snd (UploadProducts st p s))))"
proof -
  obtain err n s' where run: "UploadProducts st p s = ((err, n), s')"
    by (metis surj_pair)
  from run show ?thesis using assms
    by (cases rule: UploadProducts_cases) (auto simp: run)
qed

subsection \<open>What the insert loops send\<close>

lemma exec_all_append:
  "exec_all (xs @ ys) d =
     (case exec_all xs d of Inl e \<Rightarrow> Inl e | Inr d' \<Rightarrow> exec_all ys d')"
  by (induction xs arbitrary: d) (auto split: sum.splits)

text \<open>
  A loop that returns no error has sent one insert for every record, in order, each
  accepted, and the transaction holds the contents after all of them.
\<close>

lemma insertStocks_accepted:
  "txn s = Some d \<Longrightarrow> insertStocks st recs s = (None, s') \<Longrightarrow>
     persisted s' = persisted s
     \<and> calls s' = calls s @
           map (\<lambda>r. ExecContext insertStock [Stock.ArtId r, Stock.Name r, Stock r] None) recs
     \<and> (\<exists>d'. txn s' = Some d'
           \<and> exec_all (map (\<lambda>r. execInsertStock st (Stock.ArtId r) (Stock.Name r) (Stock r))
                           recs) d = Inr d')"
proof (induction recs arbitrary: s d)
  case Nil
  then show ?case by simp
next
  case (Cons rec recs)
  show ?case
  proof (cases "execInsertStock st (Stock.ArtId rec) (Stock.Name rec) (Stock rec) d")
    case (Inl e)
    with Cons.prems show ?thesis by (simp add: ExecContext_op_def)
  next
    case (Inr d1)
    let ?s1 = "log_call
      (ExecContext insertStock [Stock.ArtId rec, Stock.Name rec, Stock rec] None)
      (s\<lparr>txn := Some d1\<rparr>)"
    from Cons.prems Inr have rest: "insertStocks st recs ?s1 = (None, s')"
      by (simp add: ExecContext_op_def)
    have t1: "txn ?s1 = Some d1" by (simp add: log_call_def)
    from Cons.IH [OF t1 rest] Inr show ?thesis
      by (simp add: log_call_def)
  qed
qed

text \<open>
  A loop that returns an error has sent the records up to the refused one, and then the
  rollback; the records after it were not sent.
\<close>

lemma insertStocks_refused:
  "txn s = Some d \<Longrightarrow> insertStocks st recs s = (Some e, s') \<Longrightarrow>
     \<exists>pre r post. recs = pre @ r # post
       \<and> calls s' = calls s @
           map (\<lambda>r. ExecContext insertStock [Stock.ArtId r, Stock.Name r, Stock r] None) pre
           @ [ExecContext insertStock [Stock.ArtId r, Stock.Name r, Stock r] (Some e),
              Rollback]"
proof (induction recs arbitrary: s d)
  case Nil
  then show ?case by simp
next
  case (Cons rec recs)
  show ?case
  proof (cases "execInsertStock st (Stock.ArtId rec) (Stock.Name rec) (Stock rec) d")
    case (Inl e1)
    with Cons.prems have "e1 = e" and
      "s' = Rollback_op (log_call
         (ExecContext insertStock [Stock.ArtId rec, Stock.Name rec, Stock rec] (Some e1)) s)"
      by (auto simp: ExecContext_op_def)
    then have "rec # recs = [] @ rec # recs \<and> calls s' = calls s @
        map (\<lambda>r. ExecContext insertStock [Stock.ArtId r, Stock.Name r, Stock r] None) []
        @ [ExecContext insertStock [Stock.ArtId rec, Stock.Name rec, Stock rec] (Some e),
           Rollback]"
      by (simp add: Rollback_op_def log_call_def)
    then show ?thesis by blast
  next
    case (Inr d1)
    let ?s1 = "log_call
      (ExecContext insertStock [Stock.ArtId rec, Stock.Name rec, Stock rec] None)
      (s\<lparr>txn := Some d1\<rparr>)"
    from Cons.prems Inr have rest: "insertStocks st recs ?s1 = (Some e, s')"
      by (simp add: ExecContext_op_def)
    have t1: "txn ?s1 = Some d1" by (simp add: log_call_def)
    from Cons.IH [OF t1 rest] obtain pre r post where
      "recs = pre @ r # post" and
      "calls s' = calls ?s1 @
           map (\<lambda>r. ExecContext insertStock [Stock.ArtId r, Stock.Name r, Stock r] None) pre
           @ [ExecContext insertStock [Stock.ArtId r, Stock.Name r, Stock r] (Some e),
              Rollback]" by blast
    then have "rec # recs = (rec # pre) @ r # post \<and> calls s' = calls s @
        map (\<lambda>r. ExecContext insertStock [Stock.ArtId r, Stock.Name r, Stock r] None)
          (rec # pre)
        @ [ExecContext insertStock [Stock.ArtId r, Stock.Name r, Stock r] (Some e),
           Rollback]"
      by (simp add: log_call_def)
    then show ?thesis by blast
  qed
qed

lemma insertContains_accepted:
  "txn s = Some d \<Longrightarrow> insertContains st name cs s = (None, s') \<Longrightarrow>
     persisted s' = persisted s
     \<and> calls s' = calls s @
           map (\<lambda>(n, a, m). ExecContext insertProduct [n, a, m] None)
             (map (\<lambda>c. (name, Article.ArtId c, AmountOf c)) cs)
     \<and> (\<exists>d'. txn s' = Some d'
           \<and> exec_all (map (\<lambda>(n, a, m). execInsertProduct st n a m)
                           (map (\<lambda>c. (name, Article.ArtId c, AmountOf c)) cs)) d = Inr d')"
proof (induction cs arbitrary: s d)
  case Nil
  then show ?case by simp
next
  case (Cons contain cs)
  show ?case
  proof (cases "execInsertProduct st name (Article.ArtId contain) (AmountOf contain) d")
    case (Inl e)
    with Cons.prems show ?thesis by (simp add: ExecContext_op_def)
  next
    case (Inr d1)
    let ?s1 = "log_call
      (ExecContext insertProduct [name, Article.ArtId contain, AmountOf contain] None)
      (s\<lparr>txn := Some d1\<rparr>)"
    from Cons.prems Inr have rest: "insertContains st name cs ?s1 = (None, s')"
      by (simp add: ExecContext_op_def)
    have t1: "txn ?s1 = Some d1" by (simp add: log_call_def)
    from Cons.IH [OF t1 rest] Inr show ?thesis
      by (simp add: log_call_def)
  qed
qed

lemma insertContains_refused:
  "txn s = Some d \<Longrightarrow> insertContains st name cs s = (Some e, s') \<Longrightarrow>
     \<exists>pre n a m post.
       map (\<lambda>c. (name, Article.ArtId c, AmountOf c)) cs = pre @ (n, a, m) # post
       \<and> calls s' = calls s @
           map (\<lambda>(n, a, m). ExecContext insertProduct [n, a, m] None) pre
           @ [ExecContext insertProduct [n, a, m] (Some e), Rollback]"
proof (induction cs arbitrary: s d)
  case Nil
  then show ?case by simp
next
  case (Cons contain cs)
  let ?row = "(name, Article.ArtId contain, AmountOf contain)"
  show ?case
  proof (cases "execInsertProduct st name (Article.ArtId contain) (AmountOf contain) d")
    case (Inl e1)
    with Cons.prems have "e1 = e" and
      "s' = Rollback_op (log_call
         (ExecContext insertProduct [name, Article.ArtId contain, AmountOf contain]
            (Some e1)) s)"
      by (auto simp: ExecContext_op_def)
    then have "map (\<lambda>c. (name, Article.ArtId c, AmountOf c)) (contain # cs) =
          [] @ ?row # map (\<lambda>c. (name, Article.ArtId c, AmountOf c)) cs
       \<and> calls s' = calls s @
        map (\<lambda>(n, a, m). ExecContext insertProduct [n, a, m] None) []
        @ [ExecContext insertProduct [name, Article.ArtId contain, AmountOf contain] (Some e),
           Rollback]"
      by (simp add: Rollback_op_def log_call_def)
    then show ?thesis by blast
  next
    case (Inr d1)
    let ?s1 = "log_call
      (ExecContext insertProduct [name, Article.ArtId contain, AmountOf contain] None)
      (s\<lparr>txn := Some d1\<rparr>)"
    from Cons.prems Inr have rest: "insertContains st name cs ?s1 = (Some e, s')"
      by (simp add: ExecContext_op_def)
    have t1: "txn ?s1 = Some d1" by (simp add: log_call_def)
    from Cons.IH [OF t1 rest] obtain pre n a m post where
      "map (\<lambda>c. (name, Article.ArtId c, AmountOf c)) cs = pre @ (n, a, m) # post" and
      "calls s' = calls ?s1 @
           map (\<lambda>(n, a, m). ExecContext insertProduct [n, a, m] None) pre
           @ [ExecContext insertProduct [n, a, m] (Some e), Rollback]" by blast
    then have "map (\<lambda>c. (name, Article.ArtId c, AmountOf c)) (contain # cs) =
          (?row # pre) @ (n, a, m) # post
       \<and> calls s' = calls s @
        map (\<lambda>(n, a, m). ExecContext insertProduct [n, a, m] None) (?row # pre)
        @ [ExecContext insertProduct [n, a, m] (Some e), Rollback]"
      by (simp add: log_call_def)
    then show ?thesis by blast
  qed
qed

lemma insertProducts_accepted:
  "txn s = Some d \<Longrightarrow> insertProducts st ps s = (None, s') \<Longrightarrow>
     persisted s' = persisted s
     \<and> calls s' = calls s @
           map (\<lambda>(n, a, m). ExecContext insertProduct [n, a, m] None) (composition_rows ps)
     \<and> (\<exists>d'. txn s' = Some d'
           \<and> exec_all (map (\<lambda>(n, a, m). execInsertProduct st n a m) (composition_rows ps)) d
               = Inr d')"
proof (induction ps arbitrary: s d)
  case Nil
  then show ?case by (simp add: composition_rows_def)
next
  case (Cons product ps)
  let ?inner = "insertContains st (Product.Name product) (ContainArticles product) s"
  obtain r1 s1 where ex: "?inner = (r1, s1)" by (cases ?inner)
  with Cons.prems have r1: "r1 = None" by (cases r1) simp_all
  with Cons.prems ex have rest: "insertProducts st ps s1 = (None, s')" by simp
  from insertContains_accepted [OF Cons.prems(1) ex [unfolded r1]] obtain d1 where
    a: "persisted s1 = persisted s"
      "calls s1 = calls s @
           map (\<lambda>(n, a, m). ExecContext insertProduct [n, a, m] None)
             (map (\<lambda>c. (Product.Name product, Article.ArtId c, AmountOf c))
                (ContainArticles product))"
      "txn s1 = Some d1"
      "exec_all (map (\<lambda>(n, a, m). execInsertProduct st n a m)
         (map (\<lambda>c. (Product.Name product, Article.ArtId c, AmountOf c))
            (ContainArticles product))) d = Inr d1"
    by blast
  from Cons.IH [OF a(3) rest] a show ?case
    by (simp add: composition_rows_def exec_all_append)
qed

lemma insertProducts_refused:
  "txn s = Some d \<Longrightarrow> insertProducts st ps s = (Some e, s') \<Longrightarrow>
     \<exists>pre n a m post. composition_rows ps = pre @ (n, a, m) # post
       \<and> calls s' = calls s @
           map (\<lambda>(n, a, m). ExecContext insertProduct [n, a, m] None) pre
           @ [ExecContext insertProduct [n, a, m] (Some e), Rollback]"
proof (induction ps arbitrary: s d)
  case Nil
  then show ?case by simp
next
  case (Cons product ps)
  let ?rows = "map (\<lambda>c. (Product.Name product, Article.ArtId c, AmountOf c))
                (ContainArticles product)"
  let ?inner = "insertContains st (Product.Name product) (ContainArticles product) s"
  have split: "composition_rows (product # ps) = ?rows @ composition_rows ps"
    by (simp add: composition_rows_def)
  obtain r1 s1 where ex: "?inner = (r1, s1)" by (cases ?inner)
  show ?case
  proof (cases r1)
    case (Some e1)
    with Cons.prems ex have "e1 = e" "s' = s1" by simp_all
    with insertContains_refused [OF Cons.prems(1) ex [unfolded Some]]
    obtain pre n a m post where
      "?rows = pre @ (n, a, m) # post" and
      "calls s' = calls s @
           map (\<lambda>(n, a, m). ExecContext insertProduct [n, a, m] None) pre
           @ [ExecContext insertProduct [n, a, m] (Some e), Rollback]" by blast
    then have "composition_rows (product # ps) = pre @ (n, a, m) # (post @ composition_rows ps)
      \<and> calls s' = calls s @
           map (\<lambda>(n, a, m). ExecContext insertProduct [n, a, m] None) pre
           @ [ExecContext insertProduct [n, a, m] (Some e), Rollback]"
      by (simp add: split)
    then show ?thesis by blast
  next
    case None
    with Cons.prems ex have rest: "insertProducts st ps s1 = (Some e, s')" by simp
    from insertContains_accepted [OF Cons.prems(1) ex [unfolded None]] obtain d1 where
      a: "calls s1 = calls s @
           map (\<lambda>(n, a, m). ExecContext insertProduct [n, a, m] None) ?rows"
        "txn s1 = Some d1" by blast
    from Cons.IH [OF a(2) rest] obtain pre n a m post where
      "composition_rows ps = pre @ (n, a, m) # post" and
      "calls s' = calls s1 @
           map (\<lambda>(n, a, m). ExecContext insertProduct [n, a, m] None) pre
           @ [ExecContext insertProduct [n, a, m] (Some e), Rollback]" by blast
    with a(1) have "composition_rows (product # ps) = (?rows @ pre) @ (n, a, m) # post
      \<and> calls s' = calls s @
           map (\<lambda>(n, a, m). ExecContext insertProduct [n, a, m] None) (?rows @ pre)
           @ [ExecContext insertProduct [n, a, m] (Some e), Rollback]"
      by (simp add: split)
    then show ?thesis by blast
  qed
qed

lemma BeginTx_op_opened:
  "BeginTx_op st s = (None, s1) \<Longrightarrow>
     txn s1 = Some (persisted s) \<and> persisted s1 = persisted s
     \<and> calls s1 = calls s @ [BeginTx None]"
  by (auto simp: BeginTx_op_def log_call_def split: option.splits)

lemma Commit_op_open:
  "txn s = Some d \<Longrightarrow>
     Commit_op st s =
       (case commitTx st d of
          Some e \<Rightarrow> (Some e, log_call (Commit (Some e)) (s\<lparr>txn := None\<rparr>))
        | None \<Rightarrow> (None, log_call (Commit None) (s\<lparr>persisted := d, txn := None\<rparr>)))"
  by (simp add: Commit_op_def)

text \<open>
  An upload whose commit was accepted has sent exactly one accepted insert for every row
  of the batch, in order, and what is persisted afterwards is the contents from before
  the call with all these inserts applied.
\<close>

lemma UploadInventory_committed_sent:
  assumes "Commit None \<in> set (issued s (snd (UploadInventory st batch s)))"
  shows "issued s (snd (UploadInventory st batch s)) =
           BeginTx None
           # map (\<lambda>r. ExecContext insertStock [Stock.ArtId r, Stock.Name r, Stock r] None)
               (Inventory batch)
           @ [Commit None]
       \<and> exec_all (map (\<lambda>r. execInsertStock st (Stock.ArtId r) (Stock.Name r) (Stock r))
                      (Inventory batch)) (persisted s)
           = Inr (persisted (snd (UploadInventory st batch s)))
       \<and> txn (snd (UploadInventory st batch s)) = None"
proof -
  obtain r1 s1 where b: "BeginTx_op st s = (r1, s1)" by (cases "BeginTx_op st s")
  show ?thesis
  proof (cases r1)
    case (Some e)
    with b have "snd (UploadInventory st batch s) = s1"
      by (simp add: UploadInventory_def)
    with BeginTx_op_run [OF b] Some assms show ?thesis
      by (simp add: issued_def)
  next
    case None
    note o = BeginTx_op_opened [OF b [unfolded None]]
    obtain r2 s2 where l: "insertStocks st (Inventory batch) s1 = (r2, s2)"
      by (cases "insertStocks st (Inventory batch) s1")
    show ?thesis
    proof (cases r2)
      case (Some e)
      with b None l have "snd (UploadInventory st batch s) = s2"
        by (simp add: UploadInventory_def)
      with insertStocks_refused [OF conjunct1 [OF o] l [unfolded Some]] o assms
      show ?thesis by (auto simp: issued_def)
    next
      case ok: None
      from insertStocks_accepted [OF conjunct1 [OF o] l [unfolded ok]] obtain d' where
        a: "persisted s2 = persisted s1"
          "calls s2 = calls s1 @
             map (\<lambda>r. ExecContext insertStock [Stock.ArtId r, Stock.Name r, Stock r] None)
               (Inventory batch)"
          "txn s2 = Some d'"
          "exec_all (map (\<lambda>r. execInsertStock st (Stock.ArtId r) (Stock.Name r) (Stock r))
             (Inventory batch)) (persisted s) = Inr d'"
        by blast
      show ?thesis
      proof (cases "commitTx st d'")
        case (Some e)
        with b None l ok a(3)
        have "snd (UploadInventory st batch s) =
            Rollback_op (log_call (Commit (Some e)) (s2\<lparr>txn := None\<rparr>))"
          by (simp add: UploadInventory_def Commit_op_open)
        with a o assms show ?thesis
          by (auto simp: issued_def Rollback_op_def log_call_def)
      next
        case fin: None
        with b None l ok a(3)
        have "snd (UploadInventory st batch s) =
            log_call (Commit None) (s2\<lparr>persisted := d', txn := None\<rparr>)"
          by (simp add: UploadInventory_def Commit_op_open)
        with a o show ?thesis
          by (simp add: issued_def log_call_def)
      qed
    qed
  qed
qed

text \<open>
  An upload with a refused insert has sent the rows before the refused one, the refused
  one, and the rollback, and nothing else.
\<close>

lemma UploadInventory_refused_sent:
  assumes "ExecContext insertStock a (Some e)
             \<in> set (issued s (snd (UploadInventory st batch s)))"
  shows "\<exists>pre r post. Inventory batch = pre @ r # post
       \<and> issued s (snd (UploadInventory st batch s)) =
           BeginTx None
           # map (\<lambda>r. ExecContext insertStock [Stock.ArtId r, Stock.Name r, Stock r] None) pre
           @ [ExecContext insertStock [Stock.ArtId r, Stock.Name r, Stock r] (Some e),
              Rollback]"
proof -
  obtain r1 s1 where b: "BeginTx_op st s = (r1, s1)" by (cases "BeginTx_op st s")
  show ?thesis
  proof (cases r1)
    case (Some e1)
    with b have "snd (UploadInventory st batch s) = s1"
      by (simp add: UploadInventory_def)
    with BeginTx_op_run [OF b] Some assms show ?thesis
      by (simp add: issued_def)
  next
    case None
    note o = BeginTx_op_opened [OF b [unfolded None]]
    obtain r2 s2 where l: "insertStocks st (Inventory batch) s1 = (r2, s2)"
      by (cases "insertStocks st (Inventory batch) s1")
    show ?thesis
    proof (cases r2)
      case (Some e2)
      with b None l have s2: "snd (UploadInventory st batch s) = s2"
        by (simp add: UploadInventory_def)
      from insertStocks_refused [OF conjunct1 [OF o] l [unfolded Some]]
      obtain pre r post where
        p: "Inventory batch = pre @ r # post"
          "calls s2 = calls s1 @
           map (\<lambda>r. ExecContext insertStock [Stock.ArtId r, Stock.Name r, Stock r] None) pre
           @ [ExecContext insertStock [Stock.ArtId r, Stock.Name r, Stock r] (Some e2),
              Rollback]" by blast
      with s2 o assms have "e2 = e" by (auto simp: issued_def)
      with p s2 o show ?thesis by (auto simp: issued_def)
    next
      case ok: None
      from insertStocks_accepted [OF conjunct1 [OF o] l [unfolded ok]] obtain d' where
        a: "calls s2 = calls s1 @
             map (\<lambda>r. ExecContext insertStock [Stock.ArtId r, Stock.Name r, Stock r] None)
               (Inventory batch)"
          "txn s2 = Some d'"
        by blast
      show ?thesis
      proof (cases "commitTx st d'")
        case (Some e3)
        with b None l ok a(2)
        have "snd (UploadInventory st batch s) =
            Rollback_op (log_call (Commit (Some e3)) (s2\<lparr>txn := None\<rparr>))"
          by (simp add: UploadInventory_def Commit_op_open)
        with a o assms show ?thesis
          by (auto simp: issued_def Rollback_op_def log_call_def)
      next
        case fin: None
        with b None l ok a(2)
        have "snd (UploadInventory st batch s) =
            log_call (Commit None) (s2\<lparr>persisted := d', txn := None\<rparr>)"
          by (simp add: UploadInventory_def Commit_op_open)
        with a o assms show ?thesis
          by (auto simp: issued_def log_call_def)
      qed
    qed
  qed
qed

lemma UploadProducts_committed_sent:
  assumes "Commit None \<in> set (issued s (snd (UploadProducts st p s)))"
  shows "issued s (snd (UploadProducts st p s)) =
           BeginTx None
           # map (\<lambda>(n, a, m). ExecContext insertProduct [n, a, m] None)
               (composition_rows (Products p))
           @ [Commit None]
       \<and> exec_all (map (\<lambda>(n, a, m). execInsertProduct st n a m)
                      (composition_rows (Products p))) (persisted s)
           = Inr (persisted (snd (UploadProducts st p s)))
       \<and> txn (snd (UploadProducts st p s)) = None"
proof -
  obtain r1 s1 where b: "BeginTx_op st s = (r1, s1)" by (cases "BeginTx_op st s")
  show ?thesis
  proof (cases r1)
    case (Some e)
    with b have "snd (UploadProducts st p s) = s1"
      by (simp add: UploadProducts_def)
    with BeginTx_op_run [OF b] Some assms show ?thesis
      by (simp add: issued_def)
  next
    case None
    note o = BeginTx_op_opened [OF b [unfolded None]]
    obtain r2 s2 where l: "insertProducts st (Products p) s1 = (r2, s2)"
      by (cases "insertProducts st (Products p) s1")
    show ?thesis
    proof (cases r2)
      case (Some e)
      with b None l have "snd (UploadProducts st p s) = s2"
        by (simp add: UploadProducts_def)
      with insertProducts_refused [OF conjunct1 [OF o] l [unfolded Some]] o assms
      show ?thesis by (auto simp: issued_def)
    next
      case ok: None
      from insertProducts_accepted [OF conjunct1 [OF o] l [unfolded ok]] obtain d' where
        a: "persisted s2 = persisted s1"
          "calls s2 = calls s1 @
             map (\<lambda>(n, a, m). ExecContext insertProduct [n, a, m] None)
               (composition_rows (Products p))"
          "txn s2 = Some d'"
          "exec_all (map (\<lambda>(n, a, m). execInsertProduct st n a m)
             (composition_rows (Products p))) (persisted s) = Inr d'"
        by blast
      show ?thesis
      proof (cases "commitTx st d'")
        case (Some e)
        with b None l ok a(3)
        have "snd (UploadProducts st p s) =
            Rollback_op (log_call (Commit (Some e)) (s2\<lparr>txn := None\<rparr>))"
          by (simp add: UploadProducts_def Commit_op_open)
        with a o assms show ?thesis
          by (auto simp: issued_def Rollback_op_def log_call_def)
      next
        case fin: None
        with b None l ok a(3)
        have "snd (UploadProducts st p s) =
            log_call (Commit None) (s2\<lparr>persisted := d', txn := None\<rparr>)"
          by (simp add: UploadProducts_def Commit_op_open)
        with a o show ?thesis
          by (simp add: issued_def log_call_def)
      qed
    qed
  qed
qed

lemma UploadProducts_refused_sent:
  assumes "ExecContext insertProduct a (Some e)
             \<in> set (issued s (snd (UploadProducts st p s)))"
  shows "\<exists>pre n c m post. composition_rows (Products p) = pre @ (n, c, m) # post
       \<and> issued s (snd (UploadProducts st p s)) =
           BeginTx None
           # map (\<lambda>(n, a, m). ExecContext insertProduct [n, a, m] None) pre
           @ [ExecContext insertProduct [n, c, m] (Some e), Rollback]"
proof -
  obtain r1 s1 where b: "BeginTx_op st s = (r1, s1)" by (cases "BeginTx_op st s")
  show ?thesis
  proof (cases r1)
    case (Some e1)
    with b have "snd (UploadProducts st p s) = s1"
      by (simp add: UploadProducts_def)
    with BeginTx_op_run [OF b] Some assms show ?thesis
      by (simp add: issued_def)
  next
    case None
    note o = BeginTx_op_opened [OF b [unfolded None]]
    obtain r2 s2 where l: "insertProducts st (Products p) s1 = (r2, s2)"
      by (cases "insertProducts st (Products p) s1")
    show ?thesis
    proof (cases r2)
      case (Some e2)
      with b None l have s2: "snd (UploadProducts st p s) = s2"
        by (simp add: UploadProducts_def)
      from insertProducts_refused [OF conjunct1 [OF o] l [unfolded Some]]
      obtain pre n c m post where
        p: "composition_rows (Products p) = pre @ (n, c, m) # post"
          "calls s2 = calls s1 @
           map (\<lambda>(n, a, m). ExecContext insertProduct [n, a, m] None) pre
           @ [ExecContext insertProduct [n, c, m] (Some e2), Rollback]" by blast
      with s2 o assms have "e2 = e" by (auto simp: issued_def)
      with p s2 o show ?thesis by (auto simp: issued_def)
    next
      case ok: None
      from insertProducts_accepted [OF conjunct1 [OF o] l [unfolded ok]] obtain d' where
        a: "calls s2 = calls s1 @
             map (\<lambda>(n, a, m). ExecContext insertProduct [n, a, m] None)
               (composition_rows (Products p))"
          "txn s2 = Some d'"
        by blast
      show ?thesis
      proof (cases "commitTx st d'")
        case (Some e3)
        with b None l ok a(2)
        have "snd (UploadProducts st p s) =
            Rollback_op (log_call (Commit (Some e3)) (s2\<lparr>txn := None\<rparr>))"
          by (simp add: UploadProducts_def Commit_op_open)
        with a o assms show ?thesis
          by (auto simp: issued_def Rollback_op_def log_call_def)
      next
        case fin: None
        with b None l ok a(2)
        have "snd (UploadProducts st p s) =
            log_call (Commit None) (s2\<lparr>persisted := d', txn := None\<rparr>)"
          by (simp add: UploadProducts_def Commit_op_open)
        with a o assms show ?thesis
          by (auto simp: issued_def log_call_def)
      qed
    qed
  qed
qed

lemmas upload_eval =
  UploadInventory_def UploadProducts_def store_ops issued_def fixed_store_def fresh_def

subsection \<open>Uploads\<close>

text \<open>
  Claim C5. Both uploads are all-or-nothing over the batch. When the transaction commits
  (the trace of the call holds a commit that returned no error), the call returns no error
  and the number of records of the batch: stock records for \<^verbatim>\<open>UploadInventory\<close>,
  products for \<^verbatim>\<open>UploadProducts\<close>; it has sent exactly one accepted insert for every row
  of the batch, in order, and then the commit; and the persisted contents are those from
  before the call with every row of the batch inserted. When one insert fails (the trace
  holds an insert that returned the error \<open>e\<close>), the call returns \<open>e\<close> with the count 0;
  it has sent the rows before the refused one, the refused one and the rollback, and no
  commit; the transaction is closed and the persisted contents are those from before the
  call.
\<close>

theorem uploads_all_or_nothing:
  "(Commit None \<in> set (issued s (snd (UploadInventory st batch s))) \<longrightarrow>
      fst (UploadInventory st batch s) = (None, length (Inventory batch))
      \<and> issued s (snd (UploadInventory st batch s)) =
           BeginTx None
           # map (\<lambda>r. ExecContext insertStock [Stock.ArtId r, Stock.Name r, Stock r] None)
               (Inventory batch)
           @ [Commit None]
      \<and> exec_all (map (\<lambda>r. execInsertStock st (Stock.ArtId r) (Stock.Name r) (Stock r))
                     (Inventory batch)) (persisted s)
           = Inr (persisted (snd (UploadInventory st batch s)))
      \<and> txn (snd (UploadInventory st batch s)) = None)
   \<and> (ExecContext insertStock a (Some e)
         \<in> set (issued s (snd (UploadInventory st batch' s))) \<longrightarrow>
      fst (UploadInventory st batch' s) = (Some e, 0)
      \<and> persisted (snd (UploadInventory st batch' s)) = persisted s
      \<and> txn (snd (UploadInventory st batch' s)) = None
      \<and> last (issued s (snd (UploadInventory st batch' s))) = Rollback
      \<and> (\<forall>r. Commit r \<notin> set (issued s (snd (UploadInventory st batch' s))))
      \<and> (\<exists>pre r post. Inventory batch' = pre @ r # post
            \<and> issued s (snd (UploadInventory st batch' s)) =
                BeginTx None
                # map (\<lambda>r. ExecContext insertStock
                              [Stock.ArtId r, Stock.Name r, Stock r] None) pre
                @ [ExecContext insertStock [Stock.ArtId r, Stock.Name r, Stock r] (Some e),
                   Rollback]))
   \<and> (Commit None \<in> set (issued s (snd (UploadProducts st p s))) \<longrightarrow>
      fst (UploadProducts st p s) = (None, length (Products p))
      \<and> issued s (snd (UploadProducts st p s)) =
           BeginTx None
           # map (\<lambda>(n, a, m). ExecContext insertProduct [n, a, m] None)
               (composition_rows (Products p))
           @ [Commit None]
      \<and> exec_all (map (\<lambda>(n, a, m). execInsertProduct st n a m)
                     (composition_rows (Products p))) (persisted s)
           = Inr (persisted (snd (UploadProducts st p s)))
      \<and> txn (snd (UploadProducts st p s)) = None)
   \<and> (ExecContext insertProduct a' (Some e')
         \<in> set (issued s (snd (UploadProducts st p' s))) \<longrightarrow>
      fst (UploadProducts st p' s) = (Some e', 0)
      \<and> persisted (snd (UploadProducts st p' s)) = persisted s
      \<and> txn (snd (UploadProducts st p' s)) = None
      \<and> last (issued s (snd (UploadProducts st p' s))) = Rollback
      \<and> (\<forall>r. Commit r \<notin> set (issued s (snd (UploadProducts st p' s))))
      \<and> (\<exists>pre n c m post. composition_rows (Products p') = pre @ (n, c, m) # post
            \<and> issued s (snd (UploadProducts st p' s)) =
                BeginTx None
                # map (\<lambda>(n, a, m). ExecContext insertProduct [n, a, m] None) pre
                @ [ExecContext insertProduct [n, c, m] (Some e'), Rollback]))"
proof -
  have inv_ok: "fst (UploadInventory st batch s) = (None, length (Inventory batch))
      \<and> issued s (snd (UploadInventory st batch s)) =
           BeginTx None
           # map (\<lambda>r. ExecContext insertStock [Stock.ArtId r, Stock.Name r, Stock r] None)
               (Inventory batch)
           @ [Commit None]
      \<and> exec_all (map (\<lambda>r. execInsertStock st (Stock.ArtId r) (Stock.Name r) (Stock r))
                     (Inventory batch)) (persisted s)
           = Inr (persisted (snd (UploadInventory st batch s)))
      \<and> txn (snd (UploadInventory st batch s)) = None"
    if "Commit None \<in> set (issued s (snd (UploadInventory st batch s)))"
    using UploadInventory_committed [OF that] UploadInventory_committed_sent [OF that]
    by blast
  have inv_bad: "fst (UploadInventory st batch' s) = (Some e, 0)
      \<and> persisted (snd (UploadInventory st batch' s)) = persisted s
      \<and> txn (snd (UploadInventory st batch' s)) = None
      \<and> last (issued s (snd (UploadInventory st batch' s))) = Rollback
      \<and> (\<forall>r. Commit r \<notin> set (issued s (snd (UploadInventory st batch' s))))
      \<and> (\<exists>pre r post. Inventory batch' = pre @ r # post
            \<and> issued s (snd (UploadInventory st batch' s)) =
                BeginTx None
                # map (\<lambda>r. ExecContext insertStock
                              [Stock.ArtId r, Stock.Name r, Stock r] None) pre
                @ [ExecContext insertStock [Stock.ArtId r, Stock.Name r, Stock r] (Some e),
                   Rollback])"
    if "ExecContext insertStock a (Some e)
         \<in> set (issued s (snd (UploadInventory st batch' s)))"
    using UploadInventory_insert_failed [OF that] UploadInventory_refused_sent [OF that]
    by blast
  have prod_ok: "fst (UploadProducts st p s) = (None, length (Products p))
      \<and> issued s (snd (UploadProducts st p s)) =
           BeginTx None
           # map (\<lambda>(n, a, m). ExecContext insertProduct [n, a, m] None)
               (composition_rows (Products p))
           @ [Commit None]
      \<and> exec_all (map (\<lambda>(n, a, m). execInsertProduct st n a m)
                     (composition_rows (Products p))) (persisted s)
           = Inr (persisted (snd (UploadProducts st p s)))
      \<and> txn (snd (UploadProducts st p s)) = None"
    if "Commit None \<in> set (issued s (snd (UploadProducts st p s)))"
    using UploadProducts_committed [OF that] UploadProducts_committed_sent [OF that]
    by blast
  have prod_bad: "fst (UploadProducts st p' s) = (Some e', 0)
      \<and> persisted (snd (UploadProducts st p' s)) = persisted s
      \<and> txn (snd (UploadProducts st p' s)) = None
      \<and> last (issued s (snd (UploadProducts st p' s))) = Rollback
      \<and> (\<forall>r. Commit r \<notin> set (issued s (snd (UploadProducts st p' s))))
      \<and> (\<exists>pre n c m post. composition_rows (Products p') = pre @ (n, c, m) # post
            \<and> issued s (snd (UploadProducts st p' s)) =
                BeginTx None
                # map (\<lambda>(n, a, m). ExecContext insertProduct [n, a, m] None) pre
                @ [ExecContext insertProduct [n, c, m] (Some e'), Rollback])"
    if "ExecContext insertProduct a' (Some e')
         \<in> set (issued s (snd (UploadProducts st p' s)))"
    using UploadProducts_insert_failed [OF that] UploadProducts_refused_sent [OF that]
    by blast
  from inv_ok inv_bad prod_ok prod_bad show ?thesis by blast
qed

text \<open>
  On the store that refuses the id \<open>''bad''\<close>: two stock records are both persisted and
  counted; of three records with the second refused, the first is sent, the third is
  not, and nothing is persisted; likewise for the composition rows of two products.
\<close>

theorem uploads_all_or_nothing_witness:
  "Commit None \<in> set (issued fresh (snd (UploadInventory accepting two_stocks fresh)))
   \<and> fst (UploadInventory accepting two_stocks fresh) = (None, 2)
   \<and> persisted (snd (UploadInventory accepting two_stocks fresh)) = [''1'', ''2'']
   \<and> ExecContext insertStock [''bad'', ''screw'', ''17''] (Some refused)
       \<in> set (issued fresh (snd (UploadInventory accepting stocks_with_bad fresh)))
   \<and> fst (UploadInventory accepting stocks_with_bad fresh) = (Some refused, 0)
   \<and> persisted (snd (UploadInventory accepting stocks_with_bad fresh)) = []
   \<and> issued fresh (snd (UploadInventory accepting stocks_with_bad fresh)) =
       [BeginTx None, ExecContext insertStock [''1'', ''leg'', ''12''] None,
        ExecContext insertStock [''bad'', ''screw'', ''17''] (Some refused), Rollback]
   \<and> Commit None \<in> set (issued fresh (snd (UploadProducts accepting dining fresh)))
   \<and> fst (UploadProducts accepting dining fresh) = (None, 2)
   \<and> persisted (snd (UploadProducts accepting dining fresh)) = [''1'', ''2'', ''1'']
   \<and> ExecContext insertProduct [''chair'', ''bad'', ''8''] (Some refused)
       \<in> set (issued fresh (snd (UploadProducts accepting dining_with_bad fresh)))
   \<and> fst (UploadProducts accepting dining_with_bad fresh) = (Some refused, 0)
   \<and> persisted (snd (UploadProducts accepting dining_with_bad fresh)) = []
   \<and> issued fresh (snd (UploadProducts accepting dining_with_bad fresh)) =
       [BeginTx None, ExecContext insertProduct [''chair'', ''1'', ''4''] None,
        ExecContext insertProduct [''chair'', ''bad'', ''8''] (Some refused), Rollback]"
proof -
  have h1: "Commit None
      \<in> set (issued fresh (snd (UploadInventory accepting two_stocks fresh)))"
    by (simp add: upload_eval accepting_def two_stocks_def)
  have h2: "ExecContext insertStock [''bad'', ''screw'', ''17''] (Some refused)
      \<in> set (issued fresh (snd (UploadInventory accepting stocks_with_bad fresh)))"
    by (simp add: upload_eval accepting_def stocks_with_bad_def)
  have h3: "Commit None \<in> set (issued fresh (snd (UploadProducts accepting dining fresh)))"
    by (simp add: upload_eval accepting_def dining_def)
  have h4: "ExecContext insertProduct [''chair'', ''bad'', ''8''] (Some refused)
      \<in> set (issued fresh (snd (UploadProducts accepting dining_with_bad fresh)))"
    by (simp add: upload_eval accepting_def dining_with_bad_def)
  have len: "length (Inventory two_stocks) = 2" "length (Products dining) = 2"
    "persisted fresh = []"
    by (simp_all add: two_stocks_def dining_def fresh_def)
  have run1: "exec_all (map (\<lambda>r. execInsertStock accepting (Stock.ArtId r) (Stock.Name r)
        (Stock r)) (Inventory two_stocks)) [] = Inr [''1'', ''2'']"
    by (simp add: accepting_def fixed_store_def two_stocks_def)
  have run2: "exec_all (map (\<lambda>(n, a, m). execInsertProduct accepting n a m)
        (composition_rows (Products dining))) [] = Inr [''1'', ''2'', ''1'']"
    by (simp add: accepting_def fixed_store_def dining_def composition_rows_def)
  have t1: "issued fresh (snd (UploadInventory accepting stocks_with_bad fresh)) =
       [BeginTx None, ExecContext insertStock [''1'', ''leg'', ''12''] None,
        ExecContext insertStock [''bad'', ''screw'', ''17''] (Some refused), Rollback]"
    by (simp add: upload_eval accepting_def stocks_with_bad_def)
  have t2: "issued fresh (snd (UploadProducts accepting dining_with_bad fresh)) =
       [BeginTx None, ExecContext insertProduct [''chair'', ''1'', ''4''] None,
        ExecContext insertProduct [''chair'', ''bad'', ''8''] (Some refused), Rollback]"
    by (simp add: upload_eval accepting_def dining_with_bad_def)
  from uploads_all_or_nothing [of fresh accepting two_stocks
      "[''bad'', ''screw'', ''17'']" refused stocks_with_bad dining
      "[''chair'', ''bad'', ''8'']" refused dining_with_bad]
    h1 h2 h3 h4 len run1 run2 t1 t2
  show ?thesis by simp
qed




text \<open>
  Claim C7. When the commit of \<^verbatim>\<open>UploadProducts\<close> fails (every insert before it was
  accepted), the call still returns no error and the number of products of the batch;
  nothing is persisted.
\<close>

theorem UploadProducts_commit_failure_reports_success:
  assumes "Commit (Some e) \<in> set (issued s (snd (UploadProducts st p s)))"
  shows "fst (UploadProducts st p s) = (None, length (Products p))
     \<and> persisted (snd (UploadProducts st p s)) = persisted s
     \<and> (\<forall>a r. ExecContext insertProduct a r
                 \<in> set (issued s (snd (UploadProducts st p s))) \<longrightarrow> r = None)"
proof -
  obtain err n s' where run: "UploadProducts st p s = ((err, n), s')"
    by (metis surj_pair)
  from run show ?thesis using assms
    by (cases rule: UploadProducts_cases) (auto simp: run)
qed

theorem UploadProducts_commit_failure_reports_success_witness:
  "Commit (Some lost)
     \<in> set (issued fresh (snd (UploadProducts commit_failing dining fresh)))
   \<and> ExecContext insertProduct [''chair'', ''1'', ''4''] None
     \<in> set (issued fresh (snd (UploadProducts commit_failing dining fresh)))
   \<and> fst (UploadProducts commit_failing dining fresh) = (None, 2)
   \<and> persisted (snd (UploadProducts commit_failing dining fresh)) = []"
proof -
  have h: "Commit (Some lost)
      \<in> set (issued fresh (snd (UploadProducts commit_failing dining fresh)))"
    by (simp add: upload_eval commit_failing_def dining_def)
  have i: "ExecContext insertProduct [''chair'', ''1'', ''4''] None
      \<in> set (issued fresh (snd (UploadProducts commit_failing dining fresh)))"
    by (simp add: upload_eval commit_failing_def dining_def)
  have p: "persisted fresh = []" "length (Products dining) = 2"
    by (simp_all add: fresh_def dining_def)
  from UploadProducts_commit_failure_reports_success [OF h] h i p
  show ?thesis by simp
qed

text \<open>
  Claim C8. Whenever \<^verbatim>\<open>UploadProducts\<close> returns no error, the count it returns is the
  number of products of the batch, whatever the number of composition rows inserted.
\<close>

theorem UploadProducts_counts_products:
  assumes "fst (UploadProducts st p s) = (None, n)"
  shows "n = length (Products p)"
  using assms
  by (auto simp: UploadProducts_def Let_def split: prod.splits option.splits)

text \<open>Two products with three composition rows: three inserts, and the count is 2.\<close>

theorem UploadProducts_counts_products_witness:
  "fst (UploadProducts accepting dining fresh) = (None, 2)
   \<and> length (Products dining) = 2
   \<and> issued fresh (snd (UploadProducts accepting dining fresh)) =
       [BeginTx None,
        ExecContext insertProduct [''chair'', ''1'', ''4''] None,
        ExecContext insertProduct [''chair'', ''2'', ''8''] None,
        ExecContext insertProduct [''table'', ''1'', ''4''] None,
        Commit None]"
proof -
  have h: "fst (UploadProducts accepting dining fresh) = (None, 2)"
    by (simp add: upload_eval accepting_def dining_def)
  have t: "issued fresh (snd (UploadProducts accepting dining fresh)) =
       [BeginTx None,
        ExecContext insertProduct [''chair'', ''1'', ''4''] None,
        ExecContext insertProduct [''chair'', ''2'', ''8''] None,
        ExecContext insertProduct [''table'', ''1'', ''4''] None,
        Commit None]"
    by (simp add: upload_eval accepting_def dining_def)
  from UploadProducts_counts_products [OF h] h t show ?thesis by simp
qed

subsection \<open>Selling a product\<close>

lemma productExist_loop_zero:
  "0 \<notin> set pre \<Longrightarrow>
     productExist_loop (map Inr pre @ Inr 0 # post) err = Return (Some ProductNotFoundError)"
  by (induction pre arbitrary: err) auto

lemma productExist_loop_nonzero:
  "0 \<notin> set flags \<Longrightarrow>
     productExist_loop (map Inr flags) err = Done (if flags = [] then err else None)"
  by (induction flags arbitrary: err) auto

lemma inStock_loop_nonzero:
  "v \<noteq> 0 \<Longrightarrow>
     inStock_loop (replicate k (Inr 0) @ Inr v # post) err = Return (Some OutOfStockError)"
  by (induction k arbitrary: err) auto

lemmas sell_eval =
  SellProduct_def SellProduct_body_def store_ops issued_def fixed_store_def fresh_def

text \<open>
  Claim C1. The transaction opens, the existence check delivers flags that are all
  non-zero (the product is registered), and the stock check delivers, after any number of
  zero flags, a flag \<open>stockNo\<close> that is not zero (the backing stock is depleted). Then
  \<^verbatim>\<open>SellProduct\<close> returns \<open>OutOfStockError\<close>; it issued the two queries and then the
  rollback, and no statement; the transaction is closed and the persisted contents, so
  every stock quantity, are those from before the call.
\<close>

theorem SellProduct_out_of_stock:
  assumes "beginTx st (persisted s) = None"
    and "queryProductExist st productName (persisted s) = Inr (map Inr flags, rowsErr)"
    and "0 \<notin> set flags"
    and "queryInStock st productName (persisted s) =
           Inr (replicate k (Inr 0) @ Inr stockNo # post, rowsErr')"
    and "stockNo \<noteq> 0"
  shows "fst (SellProduct st productName s) = Some OutOfStockError
     \<and> persisted (snd (SellProduct st productName s)) = persisted s
     \<and> txn (snd (SellProduct st productName s)) = None
     \<and> issued s (snd (SellProduct st productName s)) =
         [BeginTx None, Query productExist [productName] None,
          Query inStock [productName] None, Rollback]"
  using assms
  by (simp add: SellProduct_def SellProduct_body_def store_ops issued_def
      productExist_loop_nonzero inStock_loop_nonzero)

theorem SellProduct_out_of_stock_witness:
  "queryProductExist depleted ''table'' (persisted fresh) = Inr (map Inr [1], None)
   \<and> queryInStock depleted ''table'' (persisted fresh) =
       Inr (replicate 0 (Inr 0) @ Inr 1 # [], None)
   \<and> fst (SellProduct depleted ''table'' fresh) = Some OutOfStockError
   \<and> persisted (snd (SellProduct depleted ''table'' fresh)) = []
   \<and> issued fresh (snd (SellProduct depleted ''table'' fresh)) =
       [BeginTx None, Query productExist [''table''] None,
        Query inStock [''table''] None, Rollback]"
proof -
  have h1: "beginTx depleted (persisted fresh) = None"
    by (simp add: depleted_def fixed_store_def)
  have h2: "queryProductExist depleted ''table'' (persisted fresh) =
      Inr (map Inr [1], None)"
    by (simp add: depleted_def fixed_store_def)
  have h3: "(0::int) \<notin> set [1]" by simp
  have h4: "queryInStock depleted ''table'' (persisted fresh) =
      Inr (replicate 0 (Inr 0) @ Inr 1 # [], None)"
    by (simp add: depleted_def fixed_store_def)
  have h5: "(1::int) \<noteq> 0" by simp
  have p: "persisted fresh = []" by (simp add: fresh_def)
  from SellProduct_out_of_stock [OF h1 h2 h3 h4 h5] h2 h4 p
  show ?thesis by simp
qed

text \<open>
  Claim C2. The transaction opens and the existence check delivers, after any number of
  non-zero flags, the flag 0 (the product is not registered). Then \<^verbatim>\<open>SellProduct\<close>
  returns \<open>ProductNotFoundError\<close>; it issued the existence check and then the rollback,
  and nothing else: no stock check and no decrement; the transaction is closed and the
  persisted contents are those from before the call.
\<close>

theorem SellProduct_product_not_found:
  assumes "beginTx st (persisted s) = None"
    and "queryProductExist st productName (persisted s) =
           Inr (map Inr pre @ Inr 0 # post, rowsErr)"
    and "0 \<notin> set pre"
  shows "fst (SellProduct st productName s) = Some ProductNotFoundError
     \<and> persisted (snd (SellProduct st productName s)) = persisted s
     \<and> txn (snd (SellProduct st productName s)) = None
     \<and> issued s (snd (SellProduct st productName s)) =
         [BeginTx None, Query productExist [productName] None, Rollback]"
  using assms
  by (simp add: SellProduct_def SellProduct_body_def store_ops issued_def
      productExist_loop_zero)

theorem SellProduct_product_not_found_witness:
  "queryProductExist unregistered ''sofa'' (persisted fresh) =
       Inr (map Inr [] @ Inr 0 # [], None)
   \<and> fst (SellProduct unregistered ''sofa'' fresh) = Some ProductNotFoundError
   \<and> persisted (snd (SellProduct unregistered ''sofa'' fresh)) = []
   \<and> issued fresh (snd (SellProduct unregistered ''sofa'' fresh)) =
       [BeginTx None, Query productExist [''sofa''] None, Rollback]"
proof -
  have h1: "beginTx unregistered (persisted fresh) = None"
    by (simp add: unregistered_def fixed_store_def)
  have h2: "queryProductExist unregistered ''sofa'' (persisted fresh) =
      Inr (map Inr [] @ Inr 0 # [], None)"
    by (simp add: unregistered_def fixed_store_def)
  have h3: "(0::int) \<notin> set []" by simp
  have p: "persisted fresh = []" by (simp add: fresh_def)
  from SellProduct_product_not_found [OF h1 h2 h3] h2 p
  show ?thesis by simp
qed

text \<open>
  What the code does when a check query fails, on any store: the branch returns the
  variable \<^verbatim>\<open>err\<close>, which is \<^verbatim>\<open>nil\<close> there, and not \<^verbatim>\<open>errQuery\<close>.
\<close>

lemma SellProduct_exist_query_error:
  assumes "beginTx st (persisted s) = None"
    and "queryProductExist st productName (persisted s) = Inl e"
  shows "fst (SellProduct st productName s) = None
     \<and> persisted (snd (SellProduct st productName s)) = persisted s
     \<and> issued s (snd (SellProduct st productName s)) =
         [BeginTx None, Query productExist [productName] (Some e), Rollback]"
  using assms
  by (simp add: SellProduct_def SellProduct_body_def store_ops issued_def)

lemma SellProduct_stock_query_error:
  assumes "beginTx st (persisted s) = None"
    and "queryProductExist st productName (persisted s) = Inr (map Inr flags, rowsErr)"
    and "0 \<notin> set flags"
    and "queryInStock st productName (persisted s) = Inl e"
  shows "fst (SellProduct st productName s) = None
     \<and> persisted (snd (SellProduct st productName s)) = persisted s
     \<and> issued s (snd (SellProduct st productName s)) =
         [BeginTx None, Query productExist [productName] None,
          Query inStock [productName] (Some e), Rollback]"
  using assms
  by (simp add: SellProduct_def SellProduct_body_def store_ops issued_def
      productExist_loop_nonzero)

text \<open>
  The persisted contents after \<^verbatim>\<open>SellProduct\<close>, on any store: either those from before
  the call, or, with no error returned, the result of the one decrement statement, which
  the store accepted and committed.
\<close>

lemma SellProduct_persisted:
  "persisted (snd (SellProduct st productName s)) = persisted s
   \<or> (fst (SellProduct st productName s) = None
      \<and> execUpdateSaleInfo st productName (persisted s)
          = Inr (persisted (snd (SellProduct st productName s)))
      \<and> commitTx st (persisted (snd (SellProduct st productName s))) = None)"
  by (auto simp: SellProduct_def SellProduct_body_def store_ops
      split: option.splits sum.splits prod.splits loop_exit.splits)

text \<open>
  Claim C3 at the failing input. The stock check of a registered product fails with the
  error \<open>lost\<close>. \<^verbatim>\<open>SellProduct\<close> returns no error, as after a sale, yet it issued neither
  the decrement nor a commit, and the persisted contents are unchanged: the call neither
  succeeded in full nor failed with an error.
\<close>

theorem SellProduct_neither_sold_nor_failed:
  "fst (SellProduct stock_query_failing ''table'' fresh) = None
   \<and> persisted (snd (SellProduct stock_query_failing ''table'' fresh)) = persisted fresh
   \<and> Query inStock [''table''] (Some lost)
       \<in> set (calls (snd (SellProduct stock_query_failing ''table'' fresh)))
   \<and> ExecContext updateSaleInfo [''table''] None
       \<notin> set (calls (snd (SellProduct stock_query_failing ''table'' fresh)))
   \<and> Commit None \<notin> set (calls (snd (SellProduct stock_query_failing ''table'' fresh)))"
  by (simp add: sell_eval stock_query_failing_def)

text \<open>
  Claim C4 at the failing inputs. The existence check fails with the error \<open>lost\<close>, or
  the existence check passes and the stock check fails with it. In both runs the
  transaction is rolled back and \<^verbatim>\<open>SellProduct\<close> returns no error: the failure of the
  query does not reach the caller.
\<close>

theorem SellProduct_query_failure_returns_nil:
  "SellProduct exist_query_failing ''table'' fresh =
     (None, \<lparr>persisted = [], txn = None,
             calls = [BeginTx None, Query productExist [''table''] (Some lost),
                      Rollback]\<rparr>)
   \<and> SellProduct stock_query_failing ''table'' fresh =
     (None, \<lparr>persisted = [], txn = None,
             calls = [BeginTx None, Query productExist [''table''] None,
                      Query inStock [''table''] (Some lost), Rollback]\<rparr>)"
  by (simp add: sell_eval exist_query_failing_def stock_query_failing_def)

text \<open>A sale that goes through, for comparison: the decrement is committed.\<close>

lemma SellProduct_sold:
  "SellProduct accepting ''table'' fresh =
     (None, \<lparr>persisted = [''table''], txn = None,
             calls = [BeginTx None, Query productExist [''table''] None,
                      Query inStock [''table''] None,
                      ExecContext updateSaleInfo [''table''] None, Commit None,
                      Rollback]\<rparr>)"
  by (simp add: sell_eval accepting_def)

end
